theory Spec2Isabelle
  imports Complex_Main "HOL-Library.AList" "HOL-Library.Log_Nat"
begin

section \<open>Host-language values\<close>

text \<open>
  The runtime collector is called from instrumented JavaScript, so the value handed to it as
  \<^verbatim>\<open>conditionResult\<close> is an arbitrary JavaScript value and the test
  \<^verbatim>\<open>if (conditionResult)\<close> is JavaScript truthiness. The numbers among these values
  are modelled by the integers (no \<^verbatim>\<open>NaN\<close>, no fractions), which is all the case labels
  of the development need. \<open>JSObj\<close> is an object, such as a rendered element, known by a
  name.
\<close>

datatype jsval = JSUndefined | JSNull | JSBool bool | JSNum int | JSStr string | JSObj string

fun truthy :: "jsval \<Rightarrow> bool" where
  "truthy JSUndefined = False"
| "truthy JSNull = False"
| "truthy (JSBool b) = b"
| "truthy (JSNum n) = (n \<noteq> 0)"
| "truthy (JSStr s) = (s \<noteq> [])"
| "truthy (JSObj name) = True"

subsection \<open>Numbers of the host: double precision\<close>

text \<open>
  The collector computes with the host's numbers, IEEE 754 doubles. A finite double is the
  rational it denotes, and the result of an arithmetic operation is the exact result rounded to
  the nearest double, ties to even: \<open>roundDouble\<close>, with 53 significant bits and the
  smallest exponent of the format (subnormal results included). \<open>binExp x\<close> is the binary
  exponent of a positive \<open>x\<close>, the \<open>e\<close> with \<open>2 ^ e \<le> x < 2 ^ (e + 1)\<close>. A result
  whose rounding reaches \<open>2 ^ 1024\<close> in magnitude is an infinity (\<open>toDouble\<close>). Negative zero and
  \<^verbatim>\<open>NaN\<close> are not values of the model; where the code produces \<^verbatim>\<open>NaN\<close> the model
  says so at that place.
\<close>

definition binExp :: "rat \<Rightarrow> int" where
  "binExp x =
     (let (p, q) = quotient_of x; k = bitlen p - bitlen q
      in if 2 powi k \<le> x then k else k - 1)"

definition roundHalfEven :: "rat \<Rightarrow> int" where
  "roundHalfEven q =
     (let f = \<lfloor>q\<rfloor>; d = q - of_int f
      in if d < 1 / 2 then f else if 1 / 2 < d then f + 1 else if even f then f else f + 1)"

definition roundDouble :: "rat \<Rightarrow> rat" where
  "roundDouble x =
     (if x = 0 then 0
      else
        (let a = \<bar>x\<bar>;
             e = max (binExp a - 52) (- 1074);
             n = roundHalfEven (a / 2 powi e)
         in sgn x * of_int n * 2 powi e))"

datatype number = Finite rat | PlusInfinity | MinusInfinity

definition toDouble :: "rat \<Rightarrow> number" where
  "toDouble x =
     (let y = roundDouble x
      in if y = 0 then Finite 0
         else if 1024 \<le> binExp \<bar>y\<bar> then (if 0 < y then PlusInfinity else MinusInfinity)
         else Finite y)"

text \<open>\<^verbatim>\<open>a < b\<close> on numbers.\<close>

fun lessNumber :: "number \<Rightarrow> number \<Rightarrow> bool" where
  "lessNumber (Finite a) (Finite b) = (a < b)"
| "lessNumber (Finite a) PlusInfinity = True"
| "lessNumber MinusInfinity (Finite b) = True"
| "lessNumber MinusInfinity PlusInfinity = True"
| "lessNumber a b = False"

subsection \<open>String helpers: \<^verbatim>\<open>split\<close> and \<^verbatim>\<open>parseInt\<close>\<close>

text \<open>\<^verbatim>\<open>s.split(c)\<close> for a one-character separator; the result is never empty.\<close>

primrec splitOn :: "char \<Rightarrow> string \<Rightarrow> string list" where
  "splitOn c [] = [[]]"
| "splitOn c (x # xs) =
     (if x = c then [] # splitOn c xs
      else (case splitOn c xs of [] \<Rightarrow> [[x]] | y # ys \<Rightarrow> (x # y) # ys))"

definition isWhiteSpace :: "char \<Rightarrow> bool" where
  "isWhiteSpace c = (c \<in> set [CHR '' '', CHR 0x09, CHR 0x0A, CHR 0x0B, CHR 0x0C, CHR 0x0D])"

definition isDigit :: "char \<Rightarrow> bool" where
  "isDigit c = (c \<in> set ''0123456789'')"

definition digitVal :: "char \<Rightarrow> nat" where
  "digitVal c = of_char c - 48"

primrec digitsToNat :: "nat \<Rightarrow> string \<Rightarrow> nat" where
  "digitsToNat acc [] = acc"
| "digitsToNat acc (c # cs) = digitsToNat (10 * acc + digitVal c) cs"

text \<open>
  \<^verbatim>\<open>parseInt(s, 10)\<close>: leading white space, an optional sign, the longest prefix of
  decimal digits, as a double; \<open>None\<close> stands for \<^verbatim>\<open>NaN\<close>.
\<close>

definition parseInt :: "string \<Rightarrow> number option" where
  "parseInt s =
     (let t = dropWhile isWhiteSpace s;
          neg = (case t of [] \<Rightarrow> False | c # _ \<Rightarrow> c = CHR ''-'');
          u = (case t of [] \<Rightarrow> [] | c # r \<Rightarrow> if c = CHR ''-'' \<or> c = CHR ''+'' then r else t);
          ds = takeWhile isDigit u
      in if ds = [] then None
         else Some (toDouble (if neg then - of_nat (digitsToNat 0 ds)
                               else of_nat (digitsToNat 0 ds))))"

text \<open>
  A destructured array element that is missing is \<^verbatim>\<open>undefined\<close>, and
  \<^verbatim>\<open>parseInt(undefined, 10)\<close> is \<^verbatim>\<open>NaN\<close>.
\<close>

definition parseIntAt :: "string list \<Rightarrow> nat \<Rightarrow> number option" where
  "parseIntAt segs i = (if i < length segs then parseInt (segs ! i) else None)"

section \<open>Data model (\<^verbatim>\<open>src/types/index.ts\<close>)\<close>

text \<open>
  \<^verbatim>\<open>BranchHit\<close>. The fields \<^verbatim>\<open>file\<close> and \<^verbatim>\<open>type\<close> are called
  \<open>bfile\<close> and \<open>btype\<close> here. The two counters are natural numbers: the source
  increments them by one and never decrements them (the host's numbers count exactly up to
  \<open>2 ^ 53\<close>, a bound the model leaves out for these two). The time stamp is a reading of
  \<^verbatim>\<open>performance.now()\<close>, a finite double.
\<close>

record BranchHit =
  branchId :: string
  bfile :: string
  line :: "number option"
  column :: "number option"
  btype :: string
  condition :: string
  hitCount :: nat
  missCount :: nat
  timestamp :: rat
  executionTime :: "number option"

record SamplingConfig =
  enabled :: bool
  sampleRate :: rat
  maxSamplesPerSecond :: rat
  collectExecutionTime :: bool

text \<open>
  \<^verbatim>\<open>RuntimeCoverageConfig\<close>; its own \<^verbatim>\<open>enabled\<close> flag is called
  \<open>coverageEnabled\<close> to keep it apart from the flag of the sampling sub-configuration.
\<close>

record RuntimeCoverageConfig =
  coverageEnabled :: bool
  sampling :: SamplingConfig
  excludePatterns :: "string list"
  includePatterns :: "string list"
  sendToAnalytics :: bool
  analyticsEndpoint :: "string option"
  visualizationEnabled :: bool

section \<open>The runtime collector (\<^verbatim>\<open>src/core/runtime-collector.ts\<close>)\<close>

text \<open>
  Objects are shared by reference in the source: \<^verbatim>\<open>this.branchStats\<close> is a reference to
  a table object whose values are references to \<^verbatim>\<open>BranchHit\<close> objects, and
  \<^verbatim>\<open>recordBranchHit\<close> mutates the latter in place. The state therefore carries an explicit
  store with two typed heaps: \<open>tableHeap\<close> holds the table objects (a table is the list of its
  own keys in insertion order, each with the address of its record), \<open>recordHeap\<close> the record
  objects. An address is an index into its heap and allocation appends, so a fresh address is the
  current length. Branch identifiers are produced by \<^verbatim>\<open>createBranchId\<close> and contain colons;
  keys that look like array indices, which the host would list first, are outside the model.

  The table is a plain object, so a property read \<^verbatim>\<open>table[k]\<close> that finds no own key
  goes on to \<^verbatim>\<open>Object.prototype\<close>. For the names of its standard members
  (\<open>objectPrototypeMembers\<close>) the read gives a function, or for \<^verbatim>\<open>__proto__\<close> the
  prototype object itself: a truthy value that is no record of the table. A write through such
  a value lands on that object, which the store does not hold. Properties that other code, or
  such a write, adds to \<^verbatim>\<open>Object.prototype\<close> are not modelled.
\<close>

definition objectPrototypeMembers :: "string list" where
  "objectPrototypeMembers =
     [''constructor'', ''__defineGetter__'', ''__defineSetter__'', ''hasOwnProperty'',
      ''__lookupGetter__'', ''__lookupSetter__'', ''isPrototypeOf'', ''propertyIsEnumerable'',
      ''toString'', ''valueOf'', ''__proto__'', ''toLocaleString'']"

type_synonym table = "(string \<times> nat) list"

record Collector =
  tableHeap :: "table list"
  recordHeap :: "BranchHit list"
  branchStats :: nat
  samplingConfig :: SamplingConfig
  config :: RuntimeCoverageConfig
  sampleCounter :: nat
  lastSampleTime :: rat
  sessionId :: string

text \<open>
  The constructor. The session id comes from the wall clock and the random number generator and
  is a parameter. The field initialiser \<^verbatim>\<open>branchStats = {}\<close> allocates the first table.
\<close>

definition newCollector :: "RuntimeCoverageConfig \<Rightarrow> string \<Rightarrow> Collector" where
  "newCollector cfg sid =
     \<lparr> tableHeap = [[]], recordHeap = [], branchStats = 0,
       samplingConfig = sampling cfg, config = cfg,
       sampleCounter = 0, lastSampleTime = 0, sessionId = sid \<rparr>"

text \<open>
  The table \<^verbatim>\<open>this.branchStats\<close> refers to, the record it holds under an own key, and the
  property read \<^verbatim>\<open>this.branchStats[id]\<close>: the address of the record under an own key, an
  inherited member, or \<^verbatim>\<open>undefined\<close>.
\<close>

definition theTable :: "Collector \<Rightarrow> table" where
  "theTable s = tableHeap s ! branchStats s"

definition lookupBranch :: "Collector \<Rightarrow> string \<Rightarrow> BranchHit option" where
  "lookupBranch s k = map_option (\<lambda>a. recordHeap s ! a) (map_of (theTable s) k)"

datatype slot = OwnRecord nat | InheritedMember | Missing

definition tableGet :: "Collector \<Rightarrow> string \<Rightarrow> slot" where
  "tableGet s k =
     (case map_of (theTable s) k of
        Some a \<Rightarrow> OwnRecord a
      | None \<Rightarrow> if k \<in> set objectPrototypeMembers then InheritedMember else Missing)"

text \<open>\<^verbatim>\<open>x % 1\<close>: the remainder has the sign of the dividend.\<close>

definition rem1 :: "rat \<Rightarrow> rat" where
  "rem1 x = (if 0 \<le> x then x - of_int \<lfloor>x\<rfloor> else x - of_int \<lceil>x\<rceil>)"

text \<open>
  \<^verbatim>\<open>shouldSample\<close>. The increment and the product are rounded to doubles; the remainder
  of a finite double is exact. An infinite product has the remainder \<^verbatim>\<open>NaN\<close>, and a
  comparison with \<^verbatim>\<open>NaN\<close> is false.
\<close>

definition shouldSample :: "Collector \<Rightarrow> bool \<times> Collector" where
  "shouldSample s =
     (let s' = s\<lparr>sampleCounter := nat \<lfloor>roundDouble (of_nat (sampleCounter s) + 1)\<rfloor>\<rparr>
      in ((case toDouble (of_nat (sampleCounter s') * sampleRate (samplingConfig s')) of
             Finite p \<Rightarrow> rem1 p < sampleRate (samplingConfig s')
           | _ \<Rightarrow> False), s'))"

text \<open>
  \<^verbatim>\<open>isRateLimited\<close>. \<^verbatim>\<open>1000 / maxSamplesPerSecond\<close> is \<^verbatim>\<open>Infinity\<close> when the
  divisor is zero.
\<close>

definition isRateLimited :: "rat \<Rightarrow> Collector \<Rightarrow> bool \<times> Collector" where
  "isRateLimited now s =
     (let timeSinceLastSample = toDouble (now - lastSampleTime s);
          minInterval = (if maxSamplesPerSecond (samplingConfig s) = 0 then PlusInfinity
                         else toDouble (1000 / maxSamplesPerSecond (samplingConfig s)))
      in if lessNumber timeSinceLastSample minInterval
         then (True, s)
         else (False, s\<lparr>lastSampleTime := now\<rparr>))"

text \<open>
  Lines 58 to 75 of \<^verbatim>\<open>recordBranchHit\<close>: when the property read under the id gives
  \<^verbatim>\<open>undefined\<close>, a record with zero counts is allocated and entered under the id (at the
  end of the key order). An own record or an inherited member is truthy and nothing is created.
\<close>

definition ensureBranch :: "string \<Rightarrow> string \<Rightarrow> string \<Rightarrow> rat \<Rightarrow> Collector \<Rightarrow> Collector" where
  "ensureBranch bid ty conditionCode now s =
     (case tableGet s bid of
        OwnRecord a \<Rightarrow> s
      | InheritedMember \<Rightarrow> s
      | Missing \<Rightarrow>
          (let segs = splitOn CHR '':'' bid;
               fresh = \<lparr> branchId = bid, bfile = hd segs,
                         line = parseIntAt segs 1, column = parseIntAt segs 2,
                         btype = ty, condition = conditionCode,
                         hitCount = 0, missCount = 0, timestamp = now, executionTime = None \<rparr>
           in s\<lparr> recordHeap := recordHeap s @ [fresh],
                 tableHeap := (tableHeap s)
                   [branchStats s := AList.update bid (length (recordHeap s)) (theTable s)] \<rparr>))"

text \<open>
  Lines 79 to 89, the updates of the record \<^verbatim>\<open>branch\<close>: one of the two counters goes up
  by one, the elapsed time is stored on request, the time stamp is set. \<open>later\<close> is the
  second reading of \<^verbatim>\<open>performance.now()\<close>.
\<close>

definition touch :: "jsval \<Rightarrow> bool \<Rightarrow> rat \<Rightarrow> rat \<Rightarrow> BranchHit \<Rightarrow> BranchHit" where
  "touch conditionResult collectTime now later b0 =
     (let b1 = (if truthy conditionResult then b0\<lparr>hitCount := hitCount b0 + 1\<rparr>
                else b0\<lparr>missCount := missCount b0 + 1\<rparr>);
          b2 = (if collectTime then b1\<lparr>executionTime := Some (toDouble (later - now))\<rparr>
                else b1)
      in b2\<lparr>timestamp := now\<rparr>)"

text \<open>
  Line 77 and the updates: \<^verbatim>\<open>branch\<close> is what the property read gives now. A record of
  the table is mutated in place, in the record heap. When the id names an inherited member the
  updates land on that member and table and records stay as they are.
\<close>

definition bumpBranch :: "string \<Rightarrow> jsval \<Rightarrow> bool \<Rightarrow> rat \<Rightarrow> rat \<Rightarrow> Collector \<Rightarrow> Collector" where
  "bumpBranch bid conditionResult collectTime now later s =
     (case tableGet s bid of
        OwnRecord a \<Rightarrow>
          s\<lparr>recordHeap :=
              (recordHeap s)[a := touch conditionResult collectTime now later (recordHeap s ! a)]\<rparr>
      | InheritedMember \<Rightarrow> s
      | Missing \<Rightarrow> s)"

text \<open>
  \<^verbatim>\<open>recordBranchHit\<close>. \<open>now\<close> and \<open>later\<close> are what the two readings of
  \<^verbatim>\<open>performance.now()\<close> return. The result is the returned value and the state after
  the call. The conjunctions of the source short-circuit: \<^verbatim>\<open>shouldSample\<close> and
  \<^verbatim>\<open>isRateLimited\<close> run only when sampling is enabled.
\<close>

definition recordBranchHit ::
  "string \<Rightarrow> string \<Rightarrow> string \<Rightarrow> jsval \<Rightarrow> bool \<Rightarrow> rat \<Rightarrow> rat \<Rightarrow> Collector \<Rightarrow> jsval \<times> Collector" where
  "recordBranchHit bid ty conditionCode conditionResult collectTime now later s =
     (let (sampled, s1) = (if enabled (samplingConfig s) then shouldSample s else (True, s))
      in if enabled (samplingConfig s) \<and> \<not> sampled then (conditionResult, s1)
         else
           (let (limited, s2) =
                  (if enabled (samplingConfig s1) then isRateLimited now s1 else (False, s1))
            in if enabled (samplingConfig s1) \<and> limited then (conditionResult, s2)
               else (conditionResult,
                     bumpBranch bid conditionResult collectTime now later
                       (ensureBranch bid ty conditionCode now s2))))"

text \<open>\<^verbatim>\<open>getBranchStats\<close>: the spread allocates a new table object with the same entries.\<close>

definition getBranchStats :: "Collector \<Rightarrow> nat \<times> Collector" where
  "getBranchStats s = (length (tableHeap s), s\<lparr>tableHeap := tableHeap s @ [theTable s]\<rparr>)"

text \<open>\<^verbatim>\<open>clearStats\<close>: \<^verbatim>\<open>this.branchStats = {}\<close> allocates a new, empty table.\<close>

definition clearStats :: "Collector \<Rightarrow> Collector" where
  "clearStats s =
     s\<lparr> tableHeap := tableHeap s @ [[]], branchStats := length (tableHeap s),
        sampleCounter := 0, lastSampleTime := 0 \<rparr>"

subsection \<open>The summary (\<^verbatim>\<open>getExecutionSummary\<close>)\<close>

text \<open>\<^verbatim>\<open>Object.values(this.branchStats)\<close>: the records of the table, in key order.\<close>

definition branchValues :: "Collector \<Rightarrow> BranchHit list" where
  "branchValues s = map (\<lambda>(k, a). recordHeap s ! a) (theTable s)"

text \<open>
  The per-file counters \<^verbatim>\<open>{ total, hit, dead, hot, cold }\<close>, with an \<open>f\<close> in front of
  each name.
\<close>

record FileStat =
  ftotal :: nat
  fhit :: nat
  fdead :: nat
  fhot :: nat
  fcold :: nat

record Summary =
  totalBranches :: nat
  hitBranches :: nat
  deadBranches :: nat
  hotBranches :: nat
  coldBranches :: nat
  coverageRate :: rat

text \<open>An entry \<^verbatim>\<open>{ file, deadBranches | hotBranches, totalBranches }\<close> of a ranking.\<close>

type_synonym fileRank = "string \<times> nat \<times> nat"

record ExecutionSummary =
  summary :: Summary
  fileStats :: "(string \<times> FileStat) list"
  topDeadCodeFiles :: "fileRank list"
  topHotPathFiles :: "fileRank list"

definition zeroFileStat :: FileStat where
  "zeroFileStat = \<lparr> ftotal = 0, fhit = 0, fdead = 0, fhot = 0, fcold = 0 \<rparr>"

text \<open>The body of the reducer once the entry of the file exists.\<close>

definition addBranch :: "BranchHit \<Rightarrow> FileStat \<Rightarrow> FileStat" where
  "addBranch branch fs =
     (let fs1 = fs\<lparr>ftotal := ftotal fs + 1\<rparr>
      in if hitCount branch = 0 then fs1\<lparr>fdead := fdead fs1 + 1\<rparr>
         else if hitCount branch > 100 then fs1\<lparr>fhot := fhot fs1 + 1\<rparr>
         else if hitCount branch < 5 then fs1\<lparr>fcold := fcold fs1 + 1\<rparr>
         else fs1\<lparr>fhit := fhit fs1 + 1\<rparr>)"

text \<open>
  One step of \<^verbatim>\<open>stats.reduce\<close>: a file seen for the first time gets a zero entry at the
  end of the accumulator, then the entry is updated. The accumulator is a plain object too:
  under a file name that is a member of \<^verbatim>\<open>Object.prototype\<close> no entry is made and the
  updates land on the inherited member.
\<close>

definition fileStatsStep :: "(string \<times> FileStat) list \<Rightarrow> BranchHit \<Rightarrow> (string \<times> FileStat) list" where
  "fileStatsStep acc branch =
     (case map_of acc (bfile branch) of
        Some fs \<Rightarrow> AList.update (bfile branch) (addBranch branch fs) acc
      | None \<Rightarrow>
          if bfile branch \<in> set objectPrototypeMembers then acc
          else AList.update (bfile branch) (addBranch branch zeroFileStat) acc)"

text \<open>
  The rankings: entries with a positive count, sorted by descending count (the sort of the host
  is stable, as is \<open>sort_key\<close>), the first ten.
\<close>

definition topFiles :: "(FileStat \<Rightarrow> nat) \<Rightarrow> (string \<times> FileStat) list \<Rightarrow> fileRank list" where
  "topFiles count fstats =
     map (\<lambda>(f, st). (f, count st, ftotal st))
       (take 10 (sort_key (\<lambda>(f, st). - int (count st))
          (filter (\<lambda>(f, st). count st > 0) fstats)))"

definition getExecutionSummary :: "Collector \<Rightarrow> ExecutionSummary" where
  "getExecutionSummary s =
     (let stats = branchValues s;
          totalB = length stats;
          hitB = length (filter (\<lambda>b. hitCount b > 0) stats);
          coldB = length (filter (\<lambda>b. hitCount b > 0 \<and> hitCount b < 5) stats);
          hotB = length (filter (\<lambda>b. hitCount b > 100) stats);
          deadB = length (filter (\<lambda>b. hitCount b = 0) stats);
          fstats = foldl fileStatsStep [] stats
      in \<lparr> summary =
             \<lparr> totalBranches = totalB, hitBranches = hitB, deadBranches = deadB,
               hotBranches = hotB, coldBranches = coldB,
               coverageRate = (if totalB > 0 then roundDouble (of_nat hitB / of_nat totalB)
                               else 0) \<rparr>,
           fileStats = fstats,
           topDeadCodeFiles = topFiles fdead fstats,
           topHotPathFiles = topFiles fhot fstats \<rparr>)"

text \<open>
  \<^verbatim>\<open>exportData\<close>. The \<^verbatim>\<open>branchStats\<close> property is the address of the copy made by
  \<^verbatim>\<open>getBranchStats\<close>; the summary is computed after the copy, as the property order says.
\<close>

record ExportData =
  exBranchStats :: nat
  exExecutionSummary :: ExecutionSummary
  exConfig :: RuntimeCoverageConfig
  exSessionId :: string

definition exportData :: "Collector \<Rightarrow> ExportData \<times> Collector" where
  "exportData s =
     (let (copy, s1) = getBranchStats s;
          es = getExecutionSummary s1
      in (\<lparr> exBranchStats = copy, exExecutionSummary = es,
            exConfig = config s1, exSessionId = sessionId s1 \<rparr>, s1))"

text \<open>The default configuration of the plugin: sampling is off.\<close>

definition DEFAULT_CONFIG :: RuntimeCoverageConfig where
  "DEFAULT_CONFIG =
     \<lparr> coverageEnabled = True,
       sampling = \<lparr> enabled = False, sampleRate = 1, maxSamplesPerSecond = 1000,
                    collectExecutionTime = False \<rparr>,
       excludePatterns = [''node_modules/**'', ''**/*.test.*'', ''**/*.spec.*''],
       includePatterns = [''**/*.{js,jsx,ts,tsx}''],
       sendToAnalytics = False, analyticsEndpoint = None, visualizationEnabled = True \<rparr>"

text \<open>
  The sampling configuration that \<^verbatim>\<open>initializeRuntimeCoverage\<close> sets in production: the
  rate is the literal \<^verbatim>\<open>0.01\<close>, that is the double nearest to it. \<open>productionState\<close>
  is a collector with it whose gate has been evaluated 400 times.
\<close>

definition productionSampling :: SamplingConfig where
  "productionSampling =
     \<lparr> enabled = True, sampleRate = roundDouble (1 / 100), maxSamplesPerSecond = 1000,
       collectExecutionTime = False \<rparr>"

definition productionState :: Collector where
  "productionState =
     (newCollector (DEFAULT_CONFIG\<lparr>sampling := productionSampling\<rparr>) ''session'')
       \<lparr>sampleCounter := 400\<rparr>"

text \<open>
  An event is sampled through when neither gate of \<^verbatim>\<open>recordBranchHit\<close> rejects it: with
  sampling enabled, \<^verbatim>\<open>shouldSample\<close> accepts and, in the state it leaves,
  \<^verbatim>\<open>isRateLimited\<close> does not limit.
\<close>

definition sampledThrough :: "rat \<Rightarrow> Collector \<Rightarrow> bool" where
  "sampledThrough now s =
     (enabled (samplingConfig s) \<longrightarrow>
        fst (shouldSample s) \<and> \<not> fst (isRateLimited now (snd (shouldSample s))))"

text \<open>
  The number of times a call of \<^verbatim>\<open>recordBranchHit\<close> reads \<^verbatim>\<open>performance.now()\<close>: not
  at all when the sampler rejects, once for \<^verbatim>\<open>now\<close>, and a second time when the event is
  recorded and the execution time is collected.
\<close>

definition clockReadings :: "bool \<Rightarrow> rat \<Rightarrow> Collector \<Rightarrow> nat" where
  "clockReadings collectTime now s =
     (if enabled (samplingConfig s) \<and> \<not> fst (shouldSample s) then 0
      else if enabled (samplingConfig s) \<and> fst (isRateLimited now (snd (shouldSample s))) then 1
      else if collectTime then 2 else 1)"

section \<open>Runs of the collector\<close>

text \<open>
  The two operations that change the table, as calls with their arguments (for
  \<^verbatim>\<open>recordBranchHit\<close> also the two clock readings), and the state after a sequence
  of calls.
\<close>

datatype call = RecordBranchHit string string string jsval bool rat rat | ClearStats

fun step :: "call \<Rightarrow> Collector \<Rightarrow> Collector" where
  "step (RecordBranchHit bid ty cc v ct now later) s =
     snd (recordBranchHit bid ty cc v ct now later s)"
| "step ClearStats s = clearStats s"

fun run :: "call list \<Rightarrow> Collector \<Rightarrow> Collector" where
  "run [] s = s"
| "run (c # cs) s = run cs (step c s)"

text \<open>
  The number of events for id \<open>k\<close> that were sampled through since the last
  \<^verbatim>\<open>clearStats\<close>, when the calls are made from state \<open>s\<close> with \<open>n\<close> such events
  so far.
\<close>

fun recordedEvents :: "string \<Rightarrow> nat \<Rightarrow> call list \<Rightarrow> Collector \<Rightarrow> nat" where
  "recordedEvents k n [] s = n"
| "recordedEvents k n (ClearStats # cs) s = recordedEvents k 0 cs (clearStats s)"
| "recordedEvents k n (RecordBranchHit bid ty cc v ct now later # cs) s =
     recordedEvents k (if bid = k \<and> sampledThrough now s then n + 1 else n) cs
       (snd (recordBranchHit bid ty cc v ct now later s))"

text \<open>
  Well-formedness of the store: the table reference and the record addresses of the table are
  allocated, and no two keys of the table share a record.
\<close>

definition storeOk :: "Collector \<Rightarrow> bool" where
  "storeOk s \<longleftrightarrow>
     branchStats s < length (tableHeap s) \<and> distinct (map snd (theTable s))
     \<and> (\<forall>a \<in> set (map snd (theTable s)). a < length (recordHeap s))"

text \<open>\<open>hitCount + missCount\<close> of the record of an id, 0 when the table has no such key.\<close>

definition seen :: "Collector \<Rightarrow> string \<Rightarrow> nat" where
  "seen s k = (case lookupBranch s k of None \<Rightarrow> 0 | Some b \<Rightarrow> hitCount b + missCount b)"

text \<open>Two states with the same store, table reference and sampling configuration.\<close>

definition sameStore :: "Collector \<Rightarrow> Collector \<Rightarrow> bool" where
  "sameStore s s' \<longleftrightarrow>
     tableHeap s' = tableHeap s \<and> recordHeap s' = recordHeap s \<and> branchStats s' = branchStats s
     \<and> samplingConfig s' = samplingConfig s"

text \<open>The invariant of the table: a key is present iff its record has counted an event.\<close>

definition tableInv :: "Collector \<Rightarrow> bool" where
  "tableInv s \<longleftrightarrow> storeOk s \<and> (\<forall>k. k \<in> fst ` set (theTable s) \<longleftrightarrow> 1 \<le> seen s k)"

text \<open>The number of \<^verbatim>\<open>recordBranchHit\<close> calls with id \<open>k\<close> in a sequence of calls.\<close>

definition callsWith :: "string \<Rightarrow> call list \<Rightarrow> nat" where
  "callsWith k cs =
     length (filter (\<lambda>c. case c of RecordBranchHit bid _ _ _ _ _ _ \<Rightarrow> bid = k
                                   | ClearStats \<Rightarrow> False) cs)"

text \<open>
  An id is plain when it names no member of \<^verbatim>\<open>Object.prototype\<close>, as every id made by
  \<^verbatim>\<open>createBranchId\<close> is (it contains colons); a sequence of calls is plain when the ids
  of its calls are.
\<close>

definition plainId :: "string \<Rightarrow> bool" where
  "plainId k = (k \<notin> set objectPrototypeMembers)"

definition plainCalls :: "call list \<Rightarrow> bool" where
  "plainCalls cs =
     list_all (\<lambda>c. case c of RecordBranchHit bid _ _ _ _ _ _ \<Rightarrow> plainId bid
                              | ClearStats \<Rightarrow> True) cs"

text \<open>Three events on one branch: true, false, true.\<close>

definition demoCalls :: "call list" where
  "demoCalls =
     [RecordBranchHit ''Dashboard.tsx:45:8:if#0'' ''if'' ''(ready)'' (JSBool True) False 1 2,
      RecordBranchHit ''Dashboard.tsx:45:8:if#0'' ''if'' ''(ready)'' (JSBool False) False 3 4,
      RecordBranchHit ''Dashboard.tsx:45:8:if#0'' ''if'' ''(ready)'' (JSBool True) False 5 6]"

section \<open>Clients of the returned table\<close>

text \<open>
  What a caller can do to a table object it holds the address \<open>t\<close> of. These are
  statements of client code, with the semantics of the host language:
  \<^verbatim>\<open>t[k] = r\<close> for a record \<open>r\<close> at address \<open>a\<close>, \<^verbatim>\<open>delete t[k]\<close>, and
  \<^verbatim>\<open>t[k].hitCount = n\<close>, which reaches through the table into the record (when the key
  is missing the statement throws and nothing changes). The first two change the table object
  itself and are the top-level mutations.
\<close>

datatype mutation = AssignKey string nat | DeleteKey string | AssignHitCount string nat

fun mutate :: "nat \<Rightarrow> mutation \<Rightarrow> Collector \<Rightarrow> Collector" where
  "mutate t (AssignKey k a) s =
     s\<lparr>tableHeap := (tableHeap s)[t := AList.update k a (tableHeap s ! t)]\<rparr>"
| "mutate t (DeleteKey k) s =
     s\<lparr>tableHeap := (tableHeap s)[t := AList.delete k (tableHeap s ! t)]\<rparr>"
| "mutate t (AssignHitCount k n) s =
     (case map_of (tableHeap s ! t) k of
        None \<Rightarrow> s
      | Some a \<Rightarrow> s\<lparr>recordHeap := (recordHeap s)[a := (recordHeap s ! a)\<lparr>hitCount := n\<rparr>]\<rparr>)"

fun topLevel :: "mutation \<Rightarrow> bool" where
  "topLevel (AssignKey k a) = True"
| "topLevel (DeleteKey k) = True"
| "topLevel (AssignHitCount k n) = False"

definition mutateAll :: "nat \<Rightarrow> mutation list \<Rightarrow> Collector \<Rightarrow> Collector" where
  "mutateAll t ms s = foldl (\<lambda>s' m. mutate t m s') s ms"

text \<open>The entries of the table object at an address, each key with its record.\<close>

definition tableContents :: "Collector \<Rightarrow> nat \<Rightarrow> (string \<times> BranchHit) list" where
  "tableContents s t = map (\<lambda>(k, a). (k, recordHeap s ! a)) (tableHeap s ! t)"

text \<open>The collector after the three events of \<open>demoCalls\<close>.\<close>

definition demoState :: Collector where
  "demoState = run demoCalls (newCollector DEFAULT_CONFIG ''session'')"

section \<open>The instrumentation plugin (\<^verbatim>\<open>src/babel-plugin.ts\<close>)\<close>

subsection \<open>Syntax trees\<close>

text \<open>
  The node types of the parser that the plugin reads or builds, and a few more to write
  conditions with: assignment to a variable, negation, strict comparison. Operators are the
  strings the parser stores in a node's \<^verbatim>\<open>operator\<close> field. A \<^verbatim>\<open>JSXElement\<close> is kept
  as a leaf with a name; the expression of a \<^verbatim>\<open>JSXExpressionContainer\<close> is handled where
  the container is visited.
\<close>

datatype expr =
    StringLiteral string
  | BooleanLiteral bool
  | NumericLiteral int
  | NullLiteral
  | Identifier string
  | AssignmentExpression string expr
  | UnaryExpression string expr
  | BinaryExpression string expr expr
  | LogicalExpression string expr expr
  | ConditionalExpression expr expr expr
  | SequenceExpression "expr list"
  | MemberExpression expr expr
  | CallExpression expr "expr list"
  | JSXElement string

datatype stmt =
    ExpressionStatement expr
  | BreakStatement
  | BlockStatement "stmt list"
  | IfStatement expr stmt "stmt option"
  | SwitchStatement expr "switchCase list"
and switchCase = SwitchCase "expr option" "stmt list"

text \<open>
  \<^verbatim>\<open>InstrumentationContext\<close> (its \<^verbatim>\<open>config\<close> field is \<open>ctxConfig\<close> here), and
  what a visitor reads from the \<^verbatim>\<open>path\<close> of the node it visits: the start of
  \<^verbatim>\<open>path.node.loc\<close>, if any, as line and column, and the text \<^verbatim>\<open>path.getSource()\<close>.
\<close>

record InstrumentationContext =
  fileName :: string
  branchCounter :: nat
  ctxConfig :: RuntimeCoverageConfig

record NodePath =
  startLoc :: "(nat \<times> nat) option"
  getSource :: string

subsection \<open>Branch identifiers\<close>

text \<open>A number in a template literal: its decimal digits.\<close>

fun natToString :: "nat \<Rightarrow> string" where
  "natToString n =
     (if n < 10 then [char_of (48 + n)]
      else natToString (n div 10) @ [char_of (48 + n mod 10)])"

text \<open>
  \<^verbatim>\<open>s.replace(p, '')\<close> for a string pattern removes the first occurrence of \<open>p\<close>;
  \<^verbatim>\<open>s.includes(p)\<close>.
\<close>

fun removeFirst :: "string \<Rightarrow> string \<Rightarrow> string" where
  "removeFirst p [] = []"
| "removeFirst p (c # cs) =
     (if take (length p) (c # cs) = p then drop (length p) (c # cs) else c # removeFirst p cs)"

fun includesStr :: "string \<Rightarrow> string \<Rightarrow> bool" where
  "includesStr [] p = (p = [])"
| "includesStr (c # cs) p = (take (length p) (c # cs) = p \<or> includesStr cs p)"

text \<open>\<^verbatim>\<open>createBranchId\<close>; \<open>cwd\<close> is what \<^verbatim>\<open>process.cwd()\<close> returns.\<close>

definition createBranchId :: "string \<Rightarrow> string \<Rightarrow> nat \<Rightarrow> nat \<Rightarrow> string \<Rightarrow> nat \<Rightarrow> string" where
  "createBranchId cwd fname lineNo colNo ty counter =
     (let noCwd = removeFirst cwd fname;
          cleanFileName = (case noCwd of [] \<Rightarrow> [] | c # cs \<Rightarrow> if c = CHR ''/'' then cs else noCwd)
      in cleanFileName @ '':'' @ natToString lineNo @ '':'' @ natToString colNo @ '':'' @ ty
           @ ''#'' @ natToString counter)"

subsection \<open>The visitors\<close>

text \<open>The callee \<^verbatim>\<open>window.__RUNTIME_COVERAGE__.recordBranchHit\<close> and \<^verbatim>\<open>createInstrumentationCall\<close>.\<close>

definition collectorCallee :: expr where
  "collectorCallee =
     MemberExpression
       (MemberExpression (Identifier ''window'') (Identifier ''__RUNTIME_COVERAGE__''))
       (Identifier ''recordBranchHit'')"

definition createInstrumentationCall :: "string \<Rightarrow> string \<Rightarrow> expr \<Rightarrow> string \<Rightarrow> bool \<Rightarrow> expr" where
  "createInstrumentationCall bid conditionCode conditionResult ty collectTime =
     (let args = [StringLiteral bid, StringLiteral ty, StringLiteral conditionCode, conditionResult];
          args' = (if collectTime then args @ [BooleanLiteral True] else args)
      in CallExpression collectorCallee args')"

text \<open>\<^verbatim>\<open>path.node.loc?.start || { line: 0, column: 0 }\<close>.\<close>

definition startOf :: "NodePath \<Rightarrow> nat \<times> nat" where
  "startOf path = (case startLoc path of None \<Rightarrow> (0, 0) | Some lc \<Rightarrow> lc)"

text \<open>
  \<^verbatim>\<open>Program.enter\<close>: the context of a file, or none when an exclude pattern, with its first
  \<^verbatim>\<open>**/\<close> and then its first \<^verbatim>\<open>*\<close> removed, occurs in the file name. A missing or
  empty file name is \<^verbatim>\<open>unknown\<close>.
\<close>

definition Program_enter ::
  "RuntimeCoverageConfig \<Rightarrow> string option \<Rightarrow> InstrumentationContext option" where
  "Program_enter cfg filename =
     (let fname = (case filename of None \<Rightarrow> ''unknown''
                   | Some f \<Rightarrow> if f = [] then ''unknown'' else f)
      in if list_ex (\<lambda>pattern. includesStr fname (removeFirst ''*'' (removeFirst ''**/'' pattern)))
              (excludePatterns cfg)
         then None
         else Some \<lparr> fileName = fname, branchCounter = 0, ctxConfig = cfg \<rparr>)"

text \<open>\<^verbatim>\<open>indexOf\<close> of a character, \<^verbatim>\<open>slice\<close> with non-negative bounds, and \<^verbatim>\<open>trim\<close>.\<close>

definition indexOf :: "char \<Rightarrow> string \<Rightarrow> int" where
  "indexOf c s = (if c \<in> set s then int (length (takeWhile (\<lambda>x. x \<noteq> c) s)) else - 1)"

definition slice :: "int \<Rightarrow> int \<Rightarrow> string \<Rightarrow> string" where
  "slice from to s = take (nat to - nat from) (drop (nat from) s)"

definition trim :: "string \<Rightarrow> string" where
  "trim s = rev (dropWhile isWhiteSpace (rev (dropWhile isWhiteSpace s)))"

text \<open>
  The sequence expression every visitor of a tested expression builds: the call, which has the
  node \<open>test\<close> as its fourth argument, followed by the node \<open>test\<close> again.
\<close>

definition instrumented :: "string \<Rightarrow> string \<Rightarrow> expr \<Rightarrow> string \<Rightarrow> InstrumentationContext \<Rightarrow> expr" where
  "instrumented bid conditionCode test ty context =
     SequenceExpression
       [createInstrumentationCall bid conditionCode test ty
          (collectExecutionTime (sampling (ctxConfig context))),
        test]"

text \<open>
  The visitors. Each takes the node and the context stored in the plugin state (none when the
  file is excluded) and returns the node as it is after the visit, and the context.
\<close>

fun IfStatement_visitor ::
  "string \<Rightarrow> NodePath \<Rightarrow> stmt \<Rightarrow> InstrumentationContext option \<Rightarrow> stmt \<times> InstrumentationContext option" where
  "IfStatement_visitor cwd path (IfStatement test consequent alternate) (Some context) =
     (let (lineNo, colNo) = startOf path;
          bid = createBranchId cwd (fileName context) lineNo colNo ''if'' (branchCounter context);
          context' = context\<lparr>branchCounter := branchCounter context + 1\<rparr>;
          conditionCode = slice 3 (indexOf CHR '')'' (getSource path) + 1) (getSource path)
      in (IfStatement (instrumented bid conditionCode test ''if'' context') consequent alternate,
          Some context'))"
| "IfStatement_visitor cwd path node context = (node, context)"

fun ConditionalExpression_visitor ::
  "string \<Rightarrow> NodePath \<Rightarrow> expr \<Rightarrow> InstrumentationContext option \<Rightarrow> expr \<times> InstrumentationContext option" where
  "ConditionalExpression_visitor cwd path (ConditionalExpression test consequent alternate)
       (Some context) =
     (let (lineNo, colNo) = startOf path;
          bid = createBranchId cwd (fileName context) lineNo colNo ''ternary'' (branchCounter context);
          context' = context\<lparr>branchCounter := branchCounter context + 1\<rparr>;
          conditionCode = trim (hd (splitOn CHR ''?'' (getSource path)))
      in (ConditionalExpression (instrumented bid conditionCode test ''ternary'' context')
            consequent alternate,
          Some context'))"
| "ConditionalExpression_visitor cwd path node context = (node, context)"

fun LogicalExpression_visitor ::
  "string \<Rightarrow> NodePath \<Rightarrow> expr \<Rightarrow> InstrumentationContext option \<Rightarrow> expr \<times> InstrumentationContext option" where
  "LogicalExpression_visitor cwd path (LogicalExpression operator left right) (Some context) =
     (if operator \<noteq> ''&&'' \<and> operator \<noteq> ''||''
      then (LogicalExpression operator left right, Some context)
      else
        (let (lineNo, colNo) = startOf path;
             bid = createBranchId cwd (fileName context) lineNo colNo ''logical'' (branchCounter context);
             context' = context\<lparr>branchCounter := branchCounter context + 1\<rparr>;
             conditionCode = getSource path
         in (LogicalExpression operator (instrumented bid conditionCode left ''logical'' context')
               right,
             Some context')))"
| "LogicalExpression_visitor cwd path node context = (node, context)"

text \<open>The two cases of the \<^verbatim>\<open>JSXExpressionContainer\<close> visitor, on the container's expression.\<close>

definition jsxConditional ::
  "string \<Rightarrow> NodePath \<Rightarrow> expr \<Rightarrow> InstrumentationContext \<Rightarrow> expr \<times> InstrumentationContext" where
  "jsxConditional cwd path expression context =
     (case expression of
        LogicalExpression operator left right \<Rightarrow>
          (if operator = ''&&'' then
             (let (lineNo, colNo) = startOf path;
                  bid = createBranchId cwd (fileName context) lineNo colNo ''jsx-conditional''
                          (branchCounter context);
                  context' = context\<lparr>branchCounter := branchCounter context + 1\<rparr>;
                  conditionCode = getSource path
              in (LogicalExpression operator
                    (instrumented bid conditionCode left ''jsx-conditional'' context') right,
                  context'))
           else (expression, context))
      | _ \<Rightarrow> (expression, context))"

definition jsxTernary ::
  "string \<Rightarrow> NodePath \<Rightarrow> expr \<Rightarrow> InstrumentationContext \<Rightarrow> expr \<times> InstrumentationContext" where
  "jsxTernary cwd path expression context =
     (case expression of
        ConditionalExpression test consequent alternate \<Rightarrow>
          (let (lineNo, colNo) = startOf path;
               bid = createBranchId cwd (fileName context) lineNo colNo ''jsx-ternary''
                       (branchCounter context);
               context' = context\<lparr>branchCounter := branchCounter context + 1\<rparr>;
               conditionCode = trim (hd (splitOn CHR ''?'' (getSource path)))
           in (ConditionalExpression
                 (instrumented bid conditionCode test ''jsx-ternary'' context')
                 consequent alternate,
               context'))
      | _ \<Rightarrow> (expression, context))"

definition JSXExpressionContainer_visitor ::
  "string \<Rightarrow> NodePath \<Rightarrow> expr \<Rightarrow> InstrumentationContext option \<Rightarrow> expr \<times> InstrumentationContext option" where
  "JSXExpressionContainer_visitor cwd path expression context =
     (case context of
        None \<Rightarrow> (expression, None)
      | Some c \<Rightarrow>
          (let (e1, c1) = jsxConditional cwd path expression c;
               (e2, c2) = jsxTernary cwd path e1 c1
           in (e2, Some c2)))"

text \<open>
  \<^verbatim>\<open>path.getSource().match(/case\s+([^:]+):/)?.[1]\<close>: the first group of the leftmost
  match. \<open>matchCaseAt\<close> matches at the start of a string: the white space is taken
  greedily, and gives one character back to the group when a colon follows it directly.
\<close>

definition matchCaseAt :: "string \<Rightarrow> string option" where
  "matchCaseAt s =
     (if take 4 s = ''case'' then
        (let rest = drop 4 s;
             ws = takeWhile isWhiteSpace rest;
             r2 = dropWhile isWhiteSpace rest;
             grp = takeWhile (\<lambda>c. c \<noteq> CHR '':'') r2;
             after = dropWhile (\<lambda>c. c \<noteq> CHR '':'') r2
         in if ws = [] \<or> after = [] then None
            else if grp \<noteq> [] then Some grp
            else if 2 \<le> length ws then Some [last ws]
            else None)
      else None)"

fun matchCase :: "string \<Rightarrow> string option" where
  "matchCase [] = None"
| "matchCase (c # cs) =
     (case matchCaseAt (c # cs) of Some g \<Rightarrow> Some g | None \<Rightarrow> matchCase cs)"

text \<open>
  The \<^verbatim>\<open>forEach\<close> over the cases of a switch statement: a case with a test gets the call as
  the first statement of its consequent, with the case's test as the condition result; the
  default case is left alone. Line, column and condition code are those of the switch
  statement for every case.
\<close>

fun instrumentCases ::
  "string \<Rightarrow> NodePath \<Rightarrow> switchCase list \<Rightarrow> InstrumentationContext
     \<Rightarrow> switchCase list \<times> InstrumentationContext" where
  "instrumentCases cwd path [] context = ([], context)"
| "instrumentCases cwd path (SwitchCase None consequent # cases) context =
     (let (cases', context') = instrumentCases cwd path cases context
      in (SwitchCase None consequent # cases', context'))"
| "instrumentCases cwd path (SwitchCase (Some test) consequent # cases) context =
     (let (lineNo, colNo) = startOf path;
          caseId = createBranchId cwd (fileName context) lineNo colNo ''switch-case''
                     (branchCounter context);
          context1 = context\<lparr>branchCounter := branchCounter context + 1\<rparr>;
          conditionCode = ''case '' @ (case matchCase (getSource path) of
                                          Some g \<Rightarrow> g | None \<Rightarrow> ''unknown'');
          instrumentation = ExpressionStatement
            (createInstrumentationCall caseId conditionCode test ''switch-case''
               (collectExecutionTime (sampling (ctxConfig context1))));
          (cases', context') = instrumentCases cwd path cases context1
      in (SwitchCase (Some test) (instrumentation # consequent) # cases', context'))"

fun SwitchStatement_visitor ::
  "string \<Rightarrow> NodePath \<Rightarrow> stmt \<Rightarrow> InstrumentationContext option \<Rightarrow> stmt \<times> InstrumentationContext option" where
  "SwitchStatement_visitor cwd path (SwitchStatement discriminant cases) (Some context) =
     (let (cases', context') = instrumentCases cwd path cases context
      in (SwitchStatement discriminant cases', Some context'))"
| "SwitchStatement_visitor cwd path node context = (node, context)"

subsection \<open>Running a program\<close>

text \<open>
  Evaluation of the fragment, left to right as the host language prescribes. An exception is a
  value \<open>Inl\<close>; whatever the fragment does not cover (other operators, other calls, a member
  access outside the collector's callee) is \<open>Unsupported\<close>. The run-time state has the
  variables in scope, the collector behind \<^verbatim>\<open>window.__RUNTIME_COVERAGE__\<close>, and the number
  of clock readings so far: the clock is a function \<open>perf\<close> from the index of a reading
  to the time read, and a call of the collector advances it by the readings the call makes.
\<close>

datatype error = ReferenceError string | Unsupported

record runtime =
  vars :: "string \<rightharpoonup> jsval"
  collector :: Collector
  clockReads :: nat

text \<open>The call of \<^verbatim>\<open>recordBranchHit\<close> with evaluated arguments; the fifth argument is optional.\<close>

definition callRecordBranchHit ::
  "(nat \<Rightarrow> rat) \<Rightarrow> jsval list \<Rightarrow> runtime \<Rightarrow> error + jsval \<times> runtime" where
  "callRecordBranchHit perf args rt =
     (case args of
        JSStr bid # JSStr ty # JSStr conditionCode # conditionResult # rest \<Rightarrow>
          (let collectTime = (case rest of [] \<Rightarrow> False | flag # _ \<Rightarrow> truthy flag);
               now = perf (clockReads rt);
               later = perf (clockReads rt + 1);
               (r, c) = recordBranchHit bid ty conditionCode conditionResult collectTime
                          now later (collector rt)
           in Inr (r, rt\<lparr>collector := c,
                         clockReads := clockReads rt
                           + clockReadings collectTime now (collector rt)\<rparr>))
      | _ \<Rightarrow> Inl Unsupported)"

fun eval :: "(nat \<Rightarrow> rat) \<Rightarrow> expr \<Rightarrow> runtime \<Rightarrow> error + jsval \<times> runtime"
  and evalList :: "(nat \<Rightarrow> rat) \<Rightarrow> expr list \<Rightarrow> runtime \<Rightarrow> error + jsval list \<times> runtime" where
  "eval perf (StringLiteral s) rt = Inr (JSStr s, rt)"
| "eval perf (BooleanLiteral b) rt = Inr (JSBool b, rt)"
| "eval perf (NumericLiteral n) rt = Inr (JSNum n, rt)"
| "eval perf NullLiteral rt = Inr (JSNull, rt)"
| "eval perf (JSXElement name) rt = Inr (JSObj name, rt)"
| "eval perf (Identifier x) rt =
     (case vars rt x of None \<Rightarrow> Inl (ReferenceError x) | Some v \<Rightarrow> Inr (v, rt))"
| "eval perf (AssignmentExpression x e) rt =
     (case eval perf e rt of
        Inl err \<Rightarrow> Inl err
      | Inr (v, rt1) \<Rightarrow>
          (if vars rt1 x = None then Inl (ReferenceError x)
           else Inr (v, rt1\<lparr>vars := (vars rt1)(x \<mapsto> v)\<rparr>)))"
| "eval perf (UnaryExpression operator e) rt =
     (case eval perf e rt of
        Inl err \<Rightarrow> Inl err
      | Inr (v, rt1) \<Rightarrow>
          (if operator = ''!'' then Inr (JSBool (\<not> truthy v), rt1) else Inl Unsupported))"
| "eval perf (BinaryExpression operator a b) rt =
     (case eval perf a rt of
        Inl err \<Rightarrow> Inl err
      | Inr (va, rt1) \<Rightarrow>
          (case eval perf b rt1 of
             Inl err \<Rightarrow> Inl err
           | Inr (vb, rt2) \<Rightarrow>
               (if operator = ''==='' then Inr (JSBool (va = vb), rt2)
                else if operator = ''!=='' then Inr (JSBool (va \<noteq> vb), rt2)
                else Inl Unsupported)))"
| "eval perf (LogicalExpression operator left right) rt =
     (case eval perf left rt of
        Inl err \<Rightarrow> Inl err
      | Inr (v, rt1) \<Rightarrow>
          (if operator = ''&&'' then (if truthy v then eval perf right rt1 else Inr (v, rt1))
           else if operator = ''||'' then (if truthy v then Inr (v, rt1) else eval perf right rt1)
           else if operator = ''??''
             then (if v = JSNull \<or> v = JSUndefined then eval perf right rt1 else Inr (v, rt1))
           else Inl Unsupported))"
| "eval perf (ConditionalExpression test consequent alternate) rt =
     (case eval perf test rt of
        Inl err \<Rightarrow> Inl err
      | Inr (v, rt1) \<Rightarrow>
          (if truthy v then eval perf consequent rt1 else eval perf alternate rt1))"
| "eval perf (SequenceExpression es) rt =
     (case evalList perf es rt of
        Inl err \<Rightarrow> Inl err
      | Inr (vs, rt1) \<Rightarrow> Inr (if vs = [] then JSUndefined else last vs, rt1))"
| "eval perf (MemberExpression object property) rt = Inl Unsupported"
| "eval perf (CallExpression callee arguments) rt =
     (if callee = collectorCallee then
        (case evalList perf arguments rt of
           Inl err \<Rightarrow> Inl err
         | Inr (vs, rt1) \<Rightarrow> callRecordBranchHit perf vs rt1)
      else Inl Unsupported)"
| "evalList perf [] rt = Inr ([], rt)"
| "evalList perf (e # es) rt =
     (case eval perf e rt of
        Inl err \<Rightarrow> Inl err
      | Inr (v, rt1) \<Rightarrow>
          (case evalList perf es rt1 of
             Inl err \<Rightarrow> Inl err
           | Inr (vs, rt2) \<Rightarrow> Inr (v # vs, rt2)))"

text \<open>
  Statements complete normally or by \<^verbatim>\<open>break\<close>. A switch statement evaluates the case
  tests in order until one is strictly equal to the discriminant, falls back to the default
  case, and runs the consequents from the selected case on until a \<^verbatim>\<open>break\<close>.
\<close>

datatype completion = Normal | Break

fun selectCase ::
  "(nat \<Rightarrow> rat) \<Rightarrow> jsval \<Rightarrow> switchCase list \<Rightarrow> runtime \<Rightarrow> error + nat option \<times> runtime" where
  "selectCase perf v [] rt = Inr (None, rt)"
| "selectCase perf v (SwitchCase None consequent # cases) rt =
     (case selectCase perf v cases rt of
        Inl err \<Rightarrow> Inl err
      | Inr (found, rt1) \<Rightarrow> Inr (map_option Suc found, rt1))"
| "selectCase perf v (SwitchCase (Some test) consequent # cases) rt =
     (case eval perf test rt of
        Inl err \<Rightarrow> Inl err
      | Inr (label, rt1) \<Rightarrow>
          (if label = v then Inr (Some 0, rt1)
           else (case selectCase perf v cases rt1 of
                   Inl err \<Rightarrow> Inl err
                 | Inr (found, rt2) \<Rightarrow> Inr (map_option Suc found, rt2))))"

fun defaultCase :: "switchCase list \<Rightarrow> nat option" where
  "defaultCase [] = None"
| "defaultCase (SwitchCase None consequent # cases) = Some 0"
| "defaultCase (SwitchCase (Some test) consequent # cases) = map_option Suc (defaultCase cases)"

fun exec :: "(nat \<Rightarrow> rat) \<Rightarrow> stmt \<Rightarrow> runtime \<Rightarrow> error + completion \<times> runtime"
  and execList :: "(nat \<Rightarrow> rat) \<Rightarrow> stmt list \<Rightarrow> runtime \<Rightarrow> error + completion \<times> runtime"
  and execFrom :: "(nat \<Rightarrow> rat) \<Rightarrow> nat \<Rightarrow> switchCase list \<Rightarrow> runtime \<Rightarrow> error + completion \<times> runtime"
  where
  "exec perf (ExpressionStatement e) rt =
     (case eval perf e rt of Inl err \<Rightarrow> Inl err | Inr (v, rt1) \<Rightarrow> Inr (Normal, rt1))"
| "exec perf BreakStatement rt = Inr (Break, rt)"
| "exec perf (BlockStatement body) rt = execList perf body rt"
| "exec perf (IfStatement test consequent alternate) rt =
     (case eval perf test rt of
        Inl err \<Rightarrow> Inl err
      | Inr (v, rt1) \<Rightarrow>
          (if truthy v then exec perf consequent rt1
           else (case alternate of None \<Rightarrow> Inr (Normal, rt1) | Some a \<Rightarrow> exec perf a rt1)))"
| "exec perf (SwitchStatement discriminant cases) rt =
     (case eval perf discriminant rt of
        Inl err \<Rightarrow> Inl err
      | Inr (v, rt1) \<Rightarrow>
          (case selectCase perf v cases rt1 of
             Inl err \<Rightarrow> Inl err
           | Inr (found, rt2) \<Rightarrow>
               (case (case found of Some i \<Rightarrow> Some i | None \<Rightarrow> defaultCase cases) of
                  None \<Rightarrow> Inr (Normal, rt2)
                | Some i \<Rightarrow>
                    (case execFrom perf i cases rt2 of
                       Inl err \<Rightarrow> Inl err
                     | Inr (c, rt3) \<Rightarrow> Inr (Normal, rt3)))))"
| "execList perf [] rt = Inr (Normal, rt)"
| "execList perf (st # sts) rt =
     (case exec perf st rt of
        Inl err \<Rightarrow> Inl err
      | Inr (Break, rt1) \<Rightarrow> Inr (Break, rt1)
      | Inr (Normal, rt1) \<Rightarrow> execList perf sts rt1)"
| "execFrom perf i [] rt = Inr (Normal, rt)"
| "execFrom perf (Suc i) (c # cases) rt = execFrom perf i cases rt"
| "execFrom perf 0 (SwitchCase test consequent # cases) rt =
     (case execList perf consequent rt of
        Inl err \<Rightarrow> Inl err
      | Inr (Break, rt1) \<Rightarrow> Inr (Break, rt1)
      | Inr (Normal, rt1) \<Rightarrow> execFrom perf 0 cases rt1)"

subsection \<open>Example programs\<close>

text \<open>
  \<^verbatim>\<open>if (done = !done) taken = 1; else taken = 2\<close>: a condition with a side effect.
\<close>

definition toggleIf :: stmt where
  "toggleIf =
     IfStatement (AssignmentExpression ''done'' (UnaryExpression ''!'' (Identifier ''done'')))
       (ExpressionStatement (AssignmentExpression ''taken'' (NumericLiteral 1)))
       (Some (ExpressionStatement (AssignmentExpression ''taken'' (NumericLiteral 2))))"

definition toggleIfPath :: NodePath where
  "toggleIfPath =
     \<lparr> startLoc = Some (3, 2), getSource = ''if (done = !done) taken = 1; else taken = 2'' \<rparr>"

definition demoContext :: InstrumentationContext where
  "demoContext = \<lparr> fileName = ''/app/src/demo.ts'', branchCounter = 0, ctxConfig = DEFAULT_CONFIG \<rparr>"

definition demoRuntime :: runtime where
  "demoRuntime =
     \<lparr> vars = [''done'' \<mapsto> JSBool False, ''taken'' \<mapsto> JSNum 0, ''n'' \<mapsto> JSNum 0],
       collector = newCollector DEFAULT_CONFIG ''session'', clockReads = 0 \<rparr>"

text \<open>
  What is observed of a finished run: the variables \<^verbatim>\<open>done\<close> and \<^verbatim>\<open>taken\<close>, and the
  records of the collector's table with their counts.
\<close>

definition observe :: "error + completion \<times> runtime \<Rightarrow> (jsval option \<times> jsval option \<times> (string \<times> nat \<times> nat) list) option" where
  "observe r =
     (case r of
        Inl err \<Rightarrow> None
      | Inr (c, rt) \<Rightarrow>
          Some (vars rt ''done'', vars rt ''taken'',
                map (\<lambda>b. (branchId b, hitCount b, missCount b)) (branchValues (collector rt))))"

text \<open>\<^verbatim>\<open>switch (n) { case 0: taken = 10; break; case 1: taken = 11; break; }\<close>.\<close>

definition zeroSwitch :: stmt where
  "zeroSwitch =
     SwitchStatement (Identifier ''n'')
       [SwitchCase (Some (NumericLiteral 0))
          [ExpressionStatement (AssignmentExpression ''taken'' (NumericLiteral 10)), BreakStatement],
        SwitchCase (Some (NumericLiteral 1))
          [ExpressionStatement (AssignmentExpression ''taken'' (NumericLiteral 11)), BreakStatement]]"

definition zeroSwitchPath :: NodePath where
  "zeroSwitchPath =
     \<lparr> startLoc = Some (7, 4),
       getSource = ''switch (n) { case 0: taken = 10; break; case 1: taken = 11; break; }'' \<rparr>"

text \<open>The same run-time state with \<^verbatim>\<open>n = 1\<close>.\<close>

definition oneRuntime :: runtime where
  "oneRuntime = demoRuntime\<lparr>vars := (vars demoRuntime)(''n'' \<mapsto> JSNum 1)\<rparr>"

section \<open>Properties of the summary\<close>

text \<open>
  C10. For every state of the collector, the summary of \<^verbatim>\<open>getExecutionSummary\<close> counts
  every record of the table in \<open>totalBranches\<close>, the records with a positive \<open>hitCount\<close>
  in \<open>hitBranches\<close> and all the others in \<open>deadBranches\<close>: every record is in exactly one
  of the two classes, and \<open>hitBranches + deadBranches = totalBranches\<close>.
\<close>

theorem summary_hit_plus_dead_is_total:
  "totalBranches (summary (getExecutionSummary s)) = length (branchValues s)
   \<and> hitBranches (summary (getExecutionSummary s))
       = length (filter (\<lambda>b. 0 < hitCount b) (branchValues s))
   \<and> deadBranches (summary (getExecutionSummary s))
       = length (filter (\<lambda>b. \<not> 0 < hitCount b) (branchValues s))
   \<and> hitBranches (summary (getExecutionSummary s)) + deadBranches (summary (getExecutionSummary s))
       = totalBranches (summary (getExecutionSummary s))"
proof -
  have "length (filter (\<lambda>b. 0 < hitCount b) xs) + length (filter (\<lambda>b. hitCount b = 0) xs)
          = length xs" for xs :: "BranchHit list"
    by (induction xs) auto
  then show ?thesis
    by (simp add: getExecutionSummary_def Let_def)
qed

text \<open>
  C1. The summary's \<open>deadBranches\<close> is to count the records with \<open>hitCount = 0\<close> and
  \<open>missCount = 0\<close>, so that a record with a recorded miss is never dead. The source counts
  \<open>hitCount = 0\<close> alone: after one falsy event on a fresh collector (sampling off) the only
  record has no hit and one miss, and the summary reports one dead branch.
\<close>

theorem dead_counts_record_with_miss:
  "let s = snd (recordBranchHit ''Dashboard.tsx:45:8:if#0'' ''if'' ''(x)'' (JSBool False)
                  False 5 6 (newCollector DEFAULT_CONFIG ''session''))
   in map_option (\<lambda>b. (hitCount b, missCount b)) (lookupBranch s ''Dashboard.tsx:45:8:if#0'')
        = Some (0, 1)
      \<and> deadBranches (summary (getExecutionSummary s)) = 1"
  by code_simp

section \<open>The sampling gate and value transparency\<close>

subsection \<open>Rounding\<close>

lemma binExp_lower:
  assumes "0 < x"
  shows "2 powi (binExp x) \<le> x"
proof -
  obtain p q where pq: "quotient_of x = (p, q)" by (cases "quotient_of x")
  then have q: "0 < q" and x: "x = of_int p / of_int q"
    by (auto simp: quotient_of_denom_pos quotient_of_div)
  from assms x q have p: "0 < p" by (simp add: zero_less_divide_iff)
  let ?k = "bitlen p - bitlen q"
  have "2 powi (?k - 1) \<le> x"
  proof -
    from bitlen_bounds [OF p] have lp: "(2::int) ^ nat (bitlen p - 1) \<le> p" by simp
    from bitlen_bounds [OF q] have uq: "q < (2::int) ^ nat (bitlen q)" by simp
    from p have bp: "1 \<le> bitlen p" by (auto simp: bitlen_alt_def)
    have "(2::rat) powi (?k - 1) = 2 powi ((bitlen p - 1) - bitlen q)"
      by (rule arg_cong [where f = "power_int 2"]) simp
    also have "\<dots> = 2 powi (bitlen p - 1) / 2 powi (bitlen q)"
      by (rule power_int_diff) simp
    also have "\<dots> = 2 ^ nat (bitlen p - 1) / 2 ^ nat (bitlen q)"
      using bp bitlen_nonneg [of q] by (simp add: power_int_nonneg_exp)
    also have "\<dots> \<le> of_int p / of_int q"
    proof (rule frac_le)
      show "(0::rat) \<le> of_int p" using p by simp
      have "(of_int ((2::int) ^ nat (bitlen p - 1)) :: rat) \<le> of_int p"
        using lp by (simp only: of_int_le_iff)
      then show "(2::rat) ^ nat (bitlen p - 1) \<le> of_int p" by simp
      show "(0::rat) < of_int q" using q by simp
      have "(of_int q :: rat) \<le> of_int ((2::int) ^ nat (bitlen q))"
        using uq by (simp only: of_int_le_iff)
      then show "(of_int q :: rat) \<le> 2 ^ nat (bitlen q)" by simp
    qed
    finally show ?thesis by (simp add: x)
  qed
  then show ?thesis
    by (simp add: binExp_def pq Let_def)
qed

lemma roundHalfEven_of_int: "roundHalfEven (of_int n) = n"
  by (simp add: roundHalfEven_def Let_def)

lemma roundDouble_nonneg: "0 \<le> x \<Longrightarrow> 0 \<le> roundDouble x"
proof -
  assume x: "0 \<le> x"
  have "0 \<le> roundHalfEven q" if "0 \<le> q" for q
    using that by (auto simp: roundHalfEven_def Let_def)
  then show ?thesis using x
    by (auto simp: roundDouble_def Let_def intro!: mult_nonneg_nonneg)
qed

lemma roundDouble_of_nat:
  assumes "n \<le> 2 ^ 53"
  shows "roundDouble (of_nat n) = of_nat n"
proof (cases "n = 0")
  case True
  then show ?thesis by (simp add: roundDouble_def)
next
  case False
  let ?a = "of_nat n :: rat"
  have pos: "0 < ?a" using False by simp
  have le: "?a \<le> 2 ^ 53"
  proof -
    have "(of_nat n :: rat) \<le> of_nat (2 ^ 53)" using assms by (simp only: of_nat_le_iff)
    then show ?thesis by simp
  qed
  let ?e = "max (binExp ?a - 52) (- 1074)"
  have b: "binExp ?a \<le> 53"
  proof (rule ccontr)
    assume "\<not> binExp ?a \<le> 53"
    then have "54 \<le> binExp ?a" by simp
    then have "(2::rat) powi 54 \<le> 2 powi (binExp ?a)"
      by (intro power_int_increasing) simp_all
    with binExp_lower [OF pos] le show False by simp
  qed
  have int: "\<exists>m::int. ?a / 2 powi ?e = of_int m"
  proof (cases "?e \<le> 0")
    case True
    then have "?a / 2 powi ?e = ?a * 2 ^ nat (- ?e)"
      by (simp add: power_int_def field_simps)
    also have "\<dots> = of_int (int n * 2 ^ nat (- ?e))" by simp
    finally show ?thesis by blast
  next
    case False
    with b have e1: "?e = 1" by (simp add: max_def split: if_splits)
    then have "binExp ?a = 53" by (simp add: max_def split: if_splits)
    with binExp_lower [OF pos] have "(2::rat) ^ 53 \<le> ?a" by simp
    with le have a: "?a = 2 ^ 53" by simp
    have "?a / 2 powi ?e = ?a / 2" by (simp only: e1) simp
    also have "\<dots> = of_int (2 ^ 52)" by (simp only: a) simp
    finally show ?thesis by blast
  qed
  then obtain m :: int where m: "?a / 2 powi ?e = of_int m" by blast
  then have "of_int m * 2 powi ?e = ?a" by (simp add: field_simps)
  then show ?thesis
    using pos m by (simp add: roundDouble_def Let_def roundHalfEven_of_int)
qed

lemma binExp_below:
  assumes "0 < x" and "x < 2 ^ n"
  shows "binExp x < int n"
proof (rule ccontr)
  assume "\<not> binExp x < int n"
  then have "int n \<le> binExp x" by simp
  then have "(2::rat) powi (int n) \<le> 2 powi (binExp x)"
    by (intro power_int_increasing) simp_all
  with binExp_lower [OF assms(1)] have "(2::rat) ^ n \<le> x" by simp
  with assms(2) show False by simp
qed

lemma toDouble_of_nat:
  assumes "n \<le> 2 ^ 53"
  shows "toDouble (of_nat n) = Finite (of_nat n)"
proof (cases "n = 0")
  case True
  then show ?thesis by (simp add: toDouble_def roundDouble_def)
next
  case False
  have "(of_nat n :: rat) \<le> of_nat (2 ^ 53)" using assms by (simp only: of_nat_le_iff)
  then have "(of_nat n :: rat) \<le> 2 ^ 53" by simp
  moreover have "(2::rat) ^ 53 < 2 ^ 1024" by simp
  ultimately have "(of_nat n :: rat) < 2 ^ 1024" by (rule le_less_trans)
  with False have "binExp (of_nat n) < int 1024"
    by (intro binExp_below) simp_all
  with False show ?thesis
    by (simp add: toDouble_def roundDouble_of_nat [OF assms] Let_def)
qed

lemma toDouble_nonneg:
  assumes "0 \<le> x" and "toDouble x = Finite p"
  shows "0 \<le> p"
  using assms roundDouble_nonneg [of x] by (auto simp: toDouble_def Let_def split: if_splits)

lemma rem1_frac: "0 \<le> x \<Longrightarrow> rem1 x = frac x"
  by (simp add: rem1_def frac_def)

lemma rem1_of_nat: "rem1 (of_nat n) = 0"
  by (simp add: rem1_def)

subsection \<open>The sampler\<close>

text \<open>
  C7, as amended. For a counter below \<open>2 ^ 53\<close> and a rate \<open>r \<ge> 0\<close> that is a double,
  \<^verbatim>\<open>shouldSample\<close> increments the counter by one and changes nothing else; with \<open>c\<close> the
  incremented counter it accepts iff the product \<open>c * r\<close>, rounded to the nearest double, is
  finite and its fractional part is below \<open>r\<close>. At rate 1 every event passes, at rate 0 none
  does.
\<close>

theorem shouldSample_gate:
  assumes run: "shouldSample s = (accept, s')"
    and counter: "sampleCounter s < 2 ^ 53"
    and rate: "0 \<le> sampleRate (samplingConfig s)"
    and double: "roundDouble (sampleRate (samplingConfig s)) = sampleRate (samplingConfig s)"
  shows "s' = s\<lparr>sampleCounter := sampleCounter s + 1\<rparr>
     \<and> (accept \<longleftrightarrow>
          (case toDouble (of_nat (sampleCounter s + 1) * sampleRate (samplingConfig s)) of
             Finite p \<Rightarrow> frac p < sampleRate (samplingConfig s)
           | PlusInfinity \<Rightarrow> False
           | MinusInfinity \<Rightarrow> False))
     \<and> (sampleRate (samplingConfig s) = 1 \<longrightarrow> accept)
     \<and> (sampleRate (samplingConfig s) = 0 \<longrightarrow> \<not> accept)"
proof -
  let ?r = "sampleRate (samplingConfig s)"
  let ?c = "sampleCounter s + 1"
  from counter have c: "?c \<le> 2 ^ 53" by simp
  have "of_nat (sampleCounter s) + 1 = (of_nat ?c :: rat)" by simp
  then have inc: "nat \<lfloor>roundDouble (of_nat (sampleCounter s) + 1)\<rfloor> = ?c"
    using roundDouble_of_nat [OF c] by (simp only: floor_of_nat nat_int)
  from run have st: "s' = s\<lparr>sampleCounter := ?c\<rparr>"
    by (auto simp: shouldSample_def Let_def inc)
  from run have acc: "accept \<longleftrightarrow>
      (case toDouble (of_nat ?c * ?r) of Finite p \<Rightarrow> rem1 p < ?r | _ \<Rightarrow> False)"
    by (auto simp: shouldSample_def Let_def inc split: number.splits)
  have nn: "0 \<le> of_nat ?c * ?r" using rate by simp
  have iff: "accept \<longleftrightarrow>
      (case toDouble (of_nat ?c * ?r) of
         Finite p \<Rightarrow> frac p < ?r | PlusInfinity \<Rightarrow> False | MinusInfinity \<Rightarrow> False)"
  proof (cases "toDouble (of_nat ?c * ?r)")
    case (Finite p)
    with toDouble_nonneg [OF nn] have "0 \<le> p" by simp
    with acc Finite show ?thesis by (simp add: rem1_frac)
  qed (use acc in simp_all)
  have one: "accept" if "?r = 1"
  proof -
    have "toDouble (of_nat ?c * ?r) = Finite (of_nat ?c)"
      using that toDouble_of_nat [OF c] by (simp only: mult_1_right)
    with acc that show ?thesis by (simp only: number.case rem1_of_nat)
  qed
  have zero: "\<not> accept" if "?r = 0"
  proof -
    have "toDouble (of_nat ?c * ?r) = Finite 0"
      using that toDouble_of_nat [of 0] by simp
    with acc that show ?thesis using rem1_of_nat [of 0] by simp
  qed
  from st iff one zero show ?thesis by blast
qed

lemma production_rate_is_double:
  "roundDouble (sampleRate (samplingConfig productionState))
     = sampleRate (samplingConfig productionState)"
  by code_simp

lemma production_gate_at_401:
  "shouldSample productionState = (True, productionState\<lparr>sampleCounter := 401\<rparr>)"
  by code_simp

theorem shouldSample_gate_witness:
  "shouldSample productionState = (True, productionState\<lparr>sampleCounter := 401\<rparr>)
   \<and> sampleCounter productionState < 2 ^ 53
   \<and> 0 \<le> sampleRate (samplingConfig productionState)
   \<and> toDouble (of_nat 401 * sampleRate (samplingConfig productionState))
       = Finite (2257429313219461 / 562949953421312)
   \<and> frac (2257429313219461 / 562949953421312 :: rat)
       < sampleRate (samplingConfig productionState)"
proof -
  have c: "sampleCounter productionState < 2 ^ 53" by (simp add: productionState_def)
  have r: "0 \<le> sampleRate (samplingConfig productionState)"
    by (simp add: productionState_def newCollector_def productionSampling_def roundDouble_nonneg)
  have p: "toDouble (of_nat 401 * sampleRate (samplingConfig productionState))
             = Finite (2257429313219461 / 562949953421312)" by code_simp
  have n: "sampleCounter productionState + 1 = 401" by (simp add: productionState_def)
  from shouldSample_gate [OF production_gate_at_401 c r production_rate_is_double]
  have "frac (2257429313219461 / 562949953421312 :: rat)
          < sampleRate (samplingConfig productionState)"
    by (simp only: n p number.case)
  with production_gate_at_401 c r p show ?thesis by simp
qed

text \<open>
  C7 as stated fails: read over the exact numbers, the test \<open>(c * r) mod 1 < r\<close> rejects the
  event at counter 401 for the production rate (the double nearest to 0.01), but the rounded
  product is just below 4.01 and the code accepts it.
\<close>

theorem shouldSample_accepts_where_exact_test_rejects:
  "fst (shouldSample productionState)
   \<and> sampleCounter (snd (shouldSample productionState)) = 401
   \<and> \<not> frac (of_nat 401 * sampleRate (samplingConfig productionState))
         < sampleRate (samplingConfig productionState)"
  by code_simp

lemma shouldSample_store:
  "tableHeap (snd (shouldSample s)) = tableHeap s \<and> recordHeap (snd (shouldSample s)) = recordHeap s
   \<and> branchStats (snd (shouldSample s)) = branchStats s
   \<and> samplingConfig (snd (shouldSample s)) = samplingConfig s"
  by (simp add: shouldSample_def Let_def)

lemma isRateLimited_store:
  "tableHeap (snd (isRateLimited now s)) = tableHeap s
   \<and> recordHeap (snd (isRateLimited now s)) = recordHeap s
   \<and> branchStats (snd (isRateLimited now s)) = branchStats s
   \<and> samplingConfig (snd (isRateLimited now s)) = samplingConfig s"
  by (simp add: isRateLimited_def Let_def)

text \<open>
  C6. \<^verbatim>\<open>recordBranchHit\<close> returns the \<^verbatim>\<open>conditionResult\<close> it was given, and when a
  gate rejects the event the table is untouched: the table reference, the table objects and
  the record objects are as before the call.
\<close>

theorem recordBranchHit_transparent:
  assumes "recordBranchHit bid ty conditionCode conditionResult collectTime now later s = (r, s')"
  shows "r = conditionResult
     \<and> (\<not> sampledThrough now s \<longrightarrow>
          tableHeap s' = tableHeap s \<and> recordHeap s' = recordHeap s
          \<and> branchStats s' = branchStats s)"
  using assms shouldSample_store [of s] isRateLimited_store [of now "snd (shouldSample s)"]
  by (auto simp: recordBranchHit_def sampledThrough_def Let_def split: prod.splits if_splits)


theorem recordBranchHit_transparent_witness:
  "recordBranchHit ''a.ts:1:2:if#0'' ''if'' ''(x)'' (JSStr ''yes'') False 5 6
      ((newCollector DEFAULT_CONFIG ''session'')
         \<lparr>samplingConfig := \<lparr>enabled = True, sampleRate = 1 / 2, maxSamplesPerSecond = 1000,
                               collectExecutionTime = False\<rparr>\<rparr>)
     = (JSStr ''yes'',
        (newCollector DEFAULT_CONFIG ''session'')
         \<lparr>samplingConfig := \<lparr>enabled = True, sampleRate = 1 / 2, maxSamplesPerSecond = 1000,
                               collectExecutionTime = False\<rparr>,
           sampleCounter := 1\<rparr>)
   \<and> \<not> sampledThrough 5
        ((newCollector DEFAULT_CONFIG ''session'')
           \<lparr>samplingConfig := \<lparr>enabled = True, sampleRate = 1 / 2, maxSamplesPerSecond = 1000,
                                 collectExecutionTime = False\<rparr>\<rparr>)"
proof -
  let ?s = "(newCollector DEFAULT_CONFIG ''session'')
         \<lparr>samplingConfig := \<lparr>enabled = True, sampleRate = 1 / 2, maxSamplesPerSecond = 1000,
                               collectExecutionTime = False\<rparr>\<rparr>"
  have call: "recordBranchHit ''a.ts:1:2:if#0'' ''if'' ''(x)'' (JSStr ''yes'') False 5 6 ?s
                = (JSStr ''yes'', ?s\<lparr>sampleCounter := 1\<rparr>)"
    by code_simp
  have rejected: "\<not> sampledThrough 5 ?s"
    by code_simp
  from recordBranchHit_transparent [OF call] call rejected show ?thesis
    by simp
qed

section \<open>The table invariant\<close>

lemma sameStore_views:
  assumes "sameStore s s'"
  shows "theTable s' = theTable s" "lookupBranch s' = lookupBranch s" "seen s' = seen s"
    "storeOk s' = storeOk s"
  using assms by (auto simp: sameStore_def theTable_def lookupBranch_def seen_def storeOk_def fun_eq_iff)

lemma update_fresh: "map_of al k = None \<Longrightarrow> AList.update k v al = al @ [(k, v)]"
  by (induction al) auto

lemma snd_inj_table:
  assumes "distinct (map snd al)" "map_of al k = Some a" "map_of al k' = Some a"
  shows "k = k'"
proof -
  from assms(2,3) have "(k, a) \<in> set al" "(k', a) \<in> set al"
    by (auto dest: map_of_SomeD)
  moreover from assms(1) have "inj_on snd (set al)"
    by (simp add: distinct_map)
  ultimately show ?thesis
    using inj_onD [of snd "set al" "(k, a)" "(k', a)"] by simp
qed

lemma tableGet_own: "map_of (theTable s) k = Some a \<Longrightarrow> tableGet s k = OwnRecord a"
  by (simp add: tableGet_def)

lemma tableGet_missing: "map_of (theTable s) k = None \<Longrightarrow> plainId k \<Longrightarrow> tableGet s k = Missing"
  by (simp add: tableGet_def plainId_def)

lemma ensureBranch_present:
  "map_of (theTable s) bid = Some a \<Longrightarrow> ensureBranch bid ty cc now s = s"
  by (simp add: ensureBranch_def tableGet_own)

lemma ensureBranch_absent:
  assumes "branchStats s < length (tableHeap s)" "map_of (theTable s) bid = None" "plainId bid"
  shows "\<exists>fresh. hitCount fresh = 0 \<and> missCount fresh = 0
           \<and> recordHeap (ensureBranch bid ty cc now s) = recordHeap s @ [fresh]"
    and "theTable (ensureBranch bid ty cc now s) = theTable s @ [(bid, length (recordHeap s))]"
    and "branchStats (ensureBranch bid ty cc now s) = branchStats s"
    and "length (tableHeap (ensureBranch bid ty cc now s)) = length (tableHeap s)"
  using assms tableGet_missing [of s bid]
  by (simp_all add: ensureBranch_def Let_def update_fresh) (simp_all add: theTable_def)

lemma touch_counts:
  "hitCount (touch v ct now later b) + missCount (touch v ct now later b)
     = hitCount b + missCount b + 1"
  by (simp add: touch_def Let_def)

lemma bumpBranch_present:
  assumes "map_of (theTable s) bid = Some a"
  shows "recordHeap (bumpBranch bid v ct now later s)
           = (recordHeap s)[a := touch v ct now later (recordHeap s ! a)]"
    and "tableHeap (bumpBranch bid v ct now later s) = tableHeap s"
    and "branchStats (bumpBranch bid v ct now later s) = branchStats s"
  using assms by (simp_all add: bumpBranch_def tableGet_own)

lemma bumpBranch_table:
  "theTable (bumpBranch bid v ct now later s) = theTable s"
  by (simp add: bumpBranch_def theTable_def Let_def split: slot.splits)

lemma record_event_present:
  assumes ok: "storeOk s" and pres: "map_of (theTable s) bid = Some a"
    and s'_def: "s' = bumpBranch bid v ct now later (ensureBranch bid ty cc now s)"
  shows "storeOk s'" and "theTable s' = theTable s"
    and "seen s' k = (if k = bid then seen s bid + 1 else seen s k)"
proof -
  have e: "ensureBranch bid ty cc now s = s" using pres by (rule ensureBranch_present)
  have t: "theTable s' = theTable s" by (simp add: s'_def e bumpBranch_table)
  define b where "b = touch v ct now later (recordHeap s ! a)"
  have b: "hitCount b + missCount b = hitCount (recordHeap s ! a) + missCount (recordHeap s ! a) + 1"
    by (simp add: b_def touch_counts)
  from bumpBranch_present [OF pres, of v ct now later]
  have rh: "recordHeap s' = (recordHeap s)[a := b]"
    and th: "tableHeap s' = tableHeap s" and bs: "branchStats s' = branchStats s"
    by (simp_all add: s'_def e b_def)
  from pres have "a \<in> set (map snd (theTable s))"
    by (force dest: map_of_SomeD)
  with ok have a: "a < length (recordHeap s)" by (auto simp: storeOk_def)
  show "theTable s' = theTable s" by (rule t)
  show "storeOk s'" using ok by (simp add: storeOk_def t rh th bs)
  show "seen s' k = (if k = bid then seen s bid + 1 else seen s k)"
  proof (cases "k = bid")
    case True
    then show ?thesis using pres a b by (simp add: seen_def lookupBranch_def t rh)
  next
    case False
    show ?thesis
    proof (cases "map_of (theTable s) k")
      case None
      then show ?thesis using False by (simp add: seen_def lookupBranch_def t)
    next
      case (Some a')
      with pres False ok have "a' \<noteq> a"
        by (auto simp: storeOk_def dest: snd_inj_table)
      then show ?thesis using False Some by (simp add: seen_def lookupBranch_def t rh)
    qed
  qed
qed

lemma record_event_absent:
  assumes ok: "storeOk s" and abs: "map_of (theTable s) bid = None" and plain: "plainId bid"
    and s'_def: "s' = bumpBranch bid v ct now later (ensureBranch bid ty cc now s)"
  shows "storeOk s'" and "theTable s' = theTable s @ [(bid, length (recordHeap s))]"
    and "seen s' k = (if k = bid then seen s bid + 1 else seen s k)"
proof -
  let ?e = "ensureBranch bid ty cc now s"
  from ok have bsl: "branchStats s < length (tableHeap s)" by (simp add: storeOk_def)
  from ensureBranch_absent [OF bsl abs plain, of ty cc now] obtain fresh where
    fr: "hitCount fresh = 0" "missCount fresh = 0"
    and erh: "recordHeap ?e = recordHeap s @ [fresh]"
    and et: "theTable ?e = theTable s @ [(bid, length (recordHeap s))]"
    and ebs: "branchStats ?e = branchStats s"
    and eth: "length (tableHeap ?e) = length (tableHeap s)"
    by auto
  have epres: "map_of (theTable ?e) bid = Some (length (recordHeap s))"
    using abs by (simp add: et map_add_def)
  define b where "b = touch v ct now later fresh"
  have b: "hitCount b + missCount b = 1"
    by (simp add: b_def touch_counts fr)
  from bumpBranch_present [OF epres, of v ct now later]
  have rh: "recordHeap s' = (recordHeap s @ [fresh])[length (recordHeap s) := b]"
    and th: "tableHeap s' = tableHeap ?e" and bs: "branchStats s' = branchStats ?e"
    by (simp_all add: s'_def erh b_def)
  have t: "theTable s' = theTable s @ [(bid, length (recordHeap s))]"
    by (simp add: s'_def bumpBranch_table et)
  show "theTable s' = theTable s @ [(bid, length (recordHeap s))]" by (rule t)
  have old: "a < length (recordHeap s)" if "a \<in> set (map snd (theTable s))" for a
    using ok that by (auto simp: storeOk_def)
  have notin: "length (recordHeap s) \<notin> snd ` set (theTable s)"
    using old by force
  have below: "\<forall>a \<in> snd ` set (theTable s). a < Suc (length (recordHeap s))"
    using old by (auto intro: less_SucI)
  show "storeOk s'"
    using ok notin below by (simp add: storeOk_def t rh th bs ebs eth)
  show "seen s' k = (if k = bid then seen s bid + 1 else seen s k)"
  proof (cases "k = bid")
    case True
    then show ?thesis using abs b by (simp add: seen_def lookupBranch_def t rh map_add_def)
  next
    case False
    show ?thesis
    proof (cases "map_of (theTable s) k")
      case None
      then show ?thesis using False by (simp add: seen_def lookupBranch_def t map_add_def)
    next
      case (Some a')
      then have "a' \<in> set (map snd (theTable s))" by (force dest: map_of_SomeD)
      then have "a' < length (recordHeap s)" by (rule old)
      then show ?thesis using False Some
        by (simp add: seen_def lookupBranch_def t rh map_add_def nth_append)
    qed
  qed
qed

lemma record_event:
  assumes ok: "storeOk s" and plain: "plainId bid"
    and s'_def: "s' = bumpBranch bid v ct now later (ensureBranch bid ty cc now s)"
  shows "storeOk s'"
    and "fst ` set (theTable s') = insert bid (fst ` set (theTable s))"
    and "seen s' k = (if k = bid then seen s bid + 1 else seen s k)"
proof -
  show "storeOk s'"
    using record_event_present(1) [OF ok _ s'_def] record_event_absent(1) [OF ok _ plain s'_def]
    by (cases "map_of (theTable s) bid") auto
  show "seen s' k = (if k = bid then seen s bid + 1 else seen s k)"
    using record_event_present(3) [OF ok _ s'_def] record_event_absent(3) [OF ok _ plain s'_def]
    by (cases "map_of (theTable s) bid") auto
  show "fst ` set (theTable s') = insert bid (fst ` set (theTable s))"
  proof (cases "map_of (theTable s) bid")
    case None
    then show ?thesis using record_event_absent(2) [OF ok None plain s'_def] by simp
  next
    case (Some a)
    then have "bid \<in> fst ` set (theTable s)"
      by (force dest: map_of_SomeD)
    then show ?thesis using record_event_present(2) [OF ok Some s'_def] by auto
  qed
qed

lemma recordBranchHit_cases:
  "\<exists>s2. sameStore s s2
      \<and> snd (recordBranchHit bid ty cc v ct now later s)
          = (if sampledThrough now s
             then bumpBranch bid v ct now later (ensureBranch bid ty cc now s2) else s2)"
proof (cases "enabled (samplingConfig s)")
  case False
  then have "snd (recordBranchHit bid ty cc v ct now later s)
               = bumpBranch bid v ct now later (ensureBranch bid ty cc now s)"
    by (simp add: recordBranchHit_def)
  moreover have "sampledThrough now s" using False by (simp add: sampledThrough_def)
  moreover have "sameStore s s" by (simp add: sameStore_def)
  ultimately show ?thesis by auto
next
  case True
  obtain b1 s1 where ss: "shouldSample s = (b1, s1)" by (cases "shouldSample s")
  obtain b2 s2 where rl: "isRateLimited now s1 = (b2, s2)" by (cases "isRateLimited now s1")
  from ss shouldSample_store [of s] have st1: "sameStore s s1" by (simp add: sameStore_def)
  from rl isRateLimited_store [of now s1] st1 have st2: "sameStore s s2"
    by (simp add: sameStore_def)
  from st1 True have en1: "enabled (samplingConfig s1)" by (simp add: sameStore_def)
  show ?thesis
  proof (cases b1)
    case False
    then have "snd (recordBranchHit bid ty cc v ct now later s) = s1"
      using True ss by (simp add: recordBranchHit_def)
    moreover have "\<not> sampledThrough now s" using True ss False by (simp add: sampledThrough_def)
    ultimately show ?thesis using st1 by auto
  next
    case b1: True
    show ?thesis
    proof (cases b2)
      case True
      then have "snd (recordBranchHit bid ty cc v ct now later s) = s2"
        using \<open>enabled (samplingConfig s)\<close> ss rl b1 en1 by (simp add: recordBranchHit_def)
      moreover have "\<not> sampledThrough now s"
        using \<open>enabled (samplingConfig s)\<close> ss rl True by (simp add: sampledThrough_def)
      ultimately show ?thesis using st2 by auto
    next
      case False
      then have "snd (recordBranchHit bid ty cc v ct now later s)
                   = bumpBranch bid v ct now later (ensureBranch bid ty cc now s2)"
        using True ss rl b1 en1 by (simp add: recordBranchHit_def)
      moreover have "sampledThrough now s"
        using ss rl b1 False by (simp add: sampledThrough_def)
      ultimately show ?thesis using st2 by auto
    qed
  qed
qed

lemma ensure_bump_config:
  "samplingConfig (bumpBranch bid v ct now later (ensureBranch bid ty cc now s)) = samplingConfig s"
  by (simp add: bumpBranch_def ensureBranch_def tableGet_def Let_def theTable_def
      split: option.splits slot.splits)

lemma step_record:
  assumes inv: "tableInv s" and plain: "plainId bid"
    and s'_def: "s' = snd (recordBranchHit bid ty cc v ct now later s)"
  shows "tableInv s'"
    and "seen s' k = (if bid = k \<and> sampledThrough now s then seen s k + 1 else seen s k)"
    and "samplingConfig s' = samplingConfig s"
proof -
  from recordBranchHit_cases [of s bid ty cc v ct now later] obtain s2 where
    st: "sameStore s s2"
    and res: "s' = (if sampledThrough now s
                    then bumpBranch bid v ct now later (ensureBranch bid ty cc now s2) else s2)"
    by (auto simp: s'_def)
  note v = sameStore_views [OF st]
  from inv have ok2: "storeOk s2" and mem2: "\<And>k. k \<in> fst ` set (theTable s2) \<longleftrightarrow> 1 \<le> seen s2 k"
    by (simp_all add: tableInv_def v)
  show "samplingConfig s' = samplingConfig s"
    using st by (simp add: res ensure_bump_config sameStore_def)
  show "tableInv s'" and "seen s' k = (if bid = k \<and> sampledThrough now s then seen s k + 1 else seen s k)"
  proof -
    show "tableInv s'"
    proof (cases "sampledThrough now s")
      case False
      then show ?thesis using ok2 mem2 by (simp add: res tableInv_def)
    next
      case True
      then have r: "s' = bumpBranch bid v ct now later (ensureBranch bid ty cc now s2)"
        by (simp add: res)
      show ?thesis
        using record_event [OF ok2 plain r] mem2 by (auto simp: tableInv_def)
    qed
    show "seen s' k = (if bid = k \<and> sampledThrough now s then seen s k + 1 else seen s k)"
    proof (cases "sampledThrough now s")
      case False
      then show ?thesis by (simp add: res v)
    next
      case True
      then have r: "s' = bumpBranch bid v ct now later (ensureBranch bid ty cc now s2)"
        by (simp add: res)
      show ?thesis
        using record_event(3) [OF ok2 plain r, of k] True by (auto simp: v)
    qed
  qed
qed

lemma step_clear:
  "tableInv (clearStats s)" "seen (clearStats s) k = 0"
  "samplingConfig (clearStats s) = samplingConfig s"
  by (simp_all add: tableInv_def storeOk_def clearStats_def theTable_def seen_def lookupBranch_def)

lemma newCollector_inv:
  "tableInv (newCollector cfg sid)" "seen (newCollector cfg sid) k = 0"
  "samplingConfig (newCollector cfg sid) = sampling cfg"
  by (simp_all add: tableInv_def storeOk_def newCollector_def theTable_def seen_def lookupBranch_def)

lemma run_inv:
  "tableInv s \<Longrightarrow> plainCalls cs \<Longrightarrow>
     tableInv (run cs s) \<and> seen (run cs s) k = recordedEvents k (seen s k) cs s
     \<and> samplingConfig (run cs s) = samplingConfig s"
proof (induction cs arbitrary: s)
  case Nil
  then show ?case by simp
next
  case (Cons c cs)
  show ?case
  proof (cases c)
    case ClearStats
    then show ?thesis
      using Cons.IH [of "clearStats s"] Cons.prems(2) step_clear(1) [of s] step_clear(2) [of s k]
        step_clear(3) [of s] by (simp add: plainCalls_def)
  next
    case (RecordBranchHit bid ty cc v ct now later)
    with Cons.prems(2) have plain: "plainId bid" and rest: "plainCalls cs"
      by (simp_all add: plainCalls_def)
    show ?thesis
      using RecordBranchHit rest
        Cons.IH [of "snd (recordBranchHit bid ty cc v ct now later s)"]
        step_record(1) [OF Cons.prems(1) plain refl, of ty cc v ct now later]
        step_record(2) [OF Cons.prems(1) plain refl, of ty cc v ct now later k]
        step_record(3) [OF Cons.prems(1) plain refl, of ty cc v ct now later]
      by auto
  qed
qed

lemma recordBranchHit_config:
  "samplingConfig (snd (recordBranchHit bid ty cc v ct now later s)) = samplingConfig s"
  using recordBranchHit_cases [of s bid ty cc v ct now later]
  by (auto simp: sameStore_def ensure_bump_config split: if_splits)

lemma recorded_without_sampling:
  "\<not> enabled (samplingConfig s) \<Longrightarrow> ClearStats \<notin> set cs \<Longrightarrow>
     recordedEvents k n cs s = n + callsWith k cs"
proof (induction cs arbitrary: s n)
  case Nil
  then show ?case by (simp add: callsWith_def)
next
  case (Cons c cs)
  show ?case
  proof (cases c)
    case ClearStats
    with Cons.prems show ?thesis by simp
  next
    case (RecordBranchHit bid ty cc v ct now later)
    have "sampledThrough now s" using Cons.prems(1) by (simp add: sampledThrough_def)
    moreover have "recordedEvents k m cs (snd (recordBranchHit bid ty cc v ct now later s))
                     = m + callsWith k cs" for m
      using Cons.IH [of "snd (recordBranchHit bid ty cc v ct now later s)" m] Cons.prems
      by (simp add: recordBranchHit_config)
    ultimately show ?thesis using RecordBranchHit by (simp add: callsWith_def)
  qed
qed

text \<open>
  C4. In every state reached from a new collector by calls of \<^verbatim>\<open>recordBranchHit\<close> and
  \<^verbatim>\<open>clearStats\<close> with plain ids (ids that name no member of \<^verbatim>\<open>Object.prototype\<close>),
  an id is a key of the table iff at least one event for it has been sampled through since the
  last clear, and every record of the table has \<open>hitCount + missCount \<ge> 1\<close> (it is the
  number of those events).
\<close>

theorem table_key_iff_event_recorded:
  assumes plain: "plainCalls cs"
  shows "(\<forall>k. k \<in> fst ` set (theTable (run cs (newCollector cfg sid)))
          \<longleftrightarrow> 1 \<le> recordedEvents k 0 cs (newCollector cfg sid))
   \<and> (\<forall>k b. lookupBranch (run cs (newCollector cfg sid)) k = Some b
          \<longrightarrow> 1 \<le> hitCount b + missCount b
              \<and> hitCount b + missCount b = recordedEvents k 0 cs (newCollector cfg sid))"
proof -
  let ?init = "newCollector cfg sid" and ?s = "run cs (newCollector cfg sid)"
  have inv: "tableInv ?s" and cnt: "seen ?s k = recordedEvents k 0 cs ?init" for k
    using run_inv [where s = "newCollector cfg sid" and cs = cs and k = k,
        OF newCollector_inv(1) plain]
      newCollector_inv(2) [of cfg sid k]
    by simp_all
  have keys: "k \<in> fst ` set (theTable ?s) \<longleftrightarrow> 1 \<le> recordedEvents k 0 cs ?init" for k
    using inv cnt [of k] by (simp add: tableInv_def)
  have recs: "1 \<le> hitCount b + missCount b
                \<and> hitCount b + missCount b = recordedEvents k 0 cs ?init"
    if "lookupBranch ?s k = Some b" for k b
  proof -
    from that have sb: "seen ?s k = hitCount b + missCount b" by (simp add: seen_def)
    from that have "map_of (theTable ?s) k \<noteq> None" by (auto simp: lookupBranch_def)
    then have "k \<in> fst ` set (theTable ?s)" by (simp add: map_of_eq_None_iff)
    with inv have "1 \<le> seen ?s k" by (simp add: tableInv_def)
    with sb cnt [of k] show ?thesis by simp
  qed
  from keys recs show ?thesis by blast
qed

lemma demoRun_after_clear:
  "fst ` set (theTable (run (ClearStats # demoCalls) (newCollector DEFAULT_CONFIG ''session'')))
     = {''Dashboard.tsx:45:8:if#0''}
   \<and> map_option (\<lambda>b. (hitCount b, missCount b))
        (lookupBranch (run (ClearStats # demoCalls) (newCollector DEFAULT_CONFIG ''session''))
           ''Dashboard.tsx:45:8:if#0'') = Some (2, 1)"
  by (simp add: demoCalls_def recordBranchHit_def newCollector_def DEFAULT_CONFIG_def
      ensureBranch_def bumpBranch_def tableGet_def objectPrototypeMembers_def touch_def
      theTable_def lookupBranch_def clearStats_def Let_def)

theorem table_key_iff_event_recorded_witness:
  "plainCalls (ClearStats # demoCalls)
   \<and> fst ` set (theTable (run (ClearStats # demoCalls) (newCollector DEFAULT_CONFIG ''session'')))
     = {''Dashboard.tsx:45:8:if#0''}
   \<and> recordedEvents ''Dashboard.tsx:45:8:if#0'' 0 (ClearStats # demoCalls)
        (newCollector DEFAULT_CONFIG ''session'') = 3
   \<and> map_option (\<lambda>b. (hitCount b, missCount b))
        (lookupBranch (run (ClearStats # demoCalls) (newCollector DEFAULT_CONFIG ''session''))
           ''Dashboard.tsx:45:8:if#0'') = Some (2, 1)"
proof -
  let ?k = "''Dashboard.tsx:45:8:if#0''"
  let ?init = "newCollector DEFAULT_CONFIG ''session''"
  have plain: "plainCalls (ClearStats # demoCalls)"
    by (simp add: plainCalls_def plainId_def demoCalls_def objectPrototypeMembers_def)
  note inv = table_key_iff_event_recorded [OF plain, of DEFAULT_CONFIG "''session''"]
  from demoRun_after_clear obtain b where
    b: "lookupBranch (run (ClearStats # demoCalls) ?init) ?k = Some b"
    and counts: "hitCount b = 2" "missCount b = 1"
    by auto
  from inv [THEN conjunct2, rule_format, OF b] counts
  have "recordedEvents ?k 0 (ClearStats # demoCalls) ?init = 3"
    by simp
  with plain demoRun_after_clear show ?thesis by simp
qed

text \<open>
  C5. With sampling disabled in the configuration every event is accepted: after any sequence
  of \<^verbatim>\<open>recordBranchHit\<close> calls with plain ids on a new collector, \<open>N\<close> of them with id
  \<open>k\<close>, the record of \<open>k\<close> has \<open>hitCount + missCount = N\<close> (and there is no record
  only when \<open>N = 0\<close>).
\<close>

theorem no_event_lost_without_sampling:
  assumes "\<not> enabled (sampling cfg)" and "ClearStats \<notin> set cs" and plain: "plainCalls cs"
  shows "case lookupBranch (run cs (newCollector cfg sid)) k of
           None \<Rightarrow> callsWith k cs = 0
         | Some b \<Rightarrow> hitCount b + missCount b = callsWith k cs"
proof -
  let ?init = "newCollector cfg sid"
  have "seen (run cs ?init) k = recordedEvents k 0 cs ?init"
    using run_inv [where s = "newCollector cfg sid" and cs = cs and k = k,
        OF newCollector_inv(1) plain]
      newCollector_inv(2) [of cfg sid k]
    by simp
  also have "\<dots> = callsWith k cs"
    using recorded_without_sampling [of ?init cs k 0] assms(1,2)
    by (simp add: newCollector_inv(3))
  finally show ?thesis by (simp add: seen_def split: option.splits)
qed

theorem no_event_lost_without_sampling_witness:
  "\<not> enabled (sampling DEFAULT_CONFIG) \<and> ClearStats \<notin> set demoCalls \<and> plainCalls demoCalls
   \<and> callsWith ''Dashboard.tsx:45:8:if#0'' demoCalls = 3
   \<and> map_option (\<lambda>b. (hitCount b, missCount b, hitCount b + missCount b))
        (lookupBranch (run demoCalls (newCollector DEFAULT_CONFIG ''session''))
           ''Dashboard.tsx:45:8:if#0'') = Some (2, 1, 3)"
proof -
  have off: "\<not> enabled (sampling DEFAULT_CONFIG)" by (simp add: DEFAULT_CONFIG_def)
  have noclear: "ClearStats \<notin> set demoCalls" by (simp add: demoCalls_def)
  have plain: "plainCalls demoCalls"
    by (simp add: plainCalls_def plainId_def demoCalls_def objectPrototypeMembers_def)
  from no_event_lost_without_sampling [OF off noclear plain, of "''session''"
      "''Dashboard.tsx:45:8:if#0''"] off noclear plain
  show ?thesis
    by (simp add: demoCalls_def callsWith_def recordBranchHit_def newCollector_def
        DEFAULT_CONFIG_def ensureBranch_def bumpBranch_def tableGet_def
        objectPrototypeMembers_def touch_def theTable_def lookupBranch_def Let_def)
qed

section \<open>Copies and exports\<close>

lemma demoState_eq:
  "demoState =
     \<lparr> tableHeap = [[(''Dashboard.tsx:45:8:if#0'', 0)]],
       recordHeap = [\<lparr> branchId = ''Dashboard.tsx:45:8:if#0'', bfile = ''Dashboard.tsx'',
                       line = Some (Finite 45), column = Some (Finite 8), btype = ''if'',
                       condition = ''(ready)'', hitCount = 2, missCount = 1, timestamp = 5,
                       executionTime = None \<rparr>],
       branchStats = 0, samplingConfig = sampling DEFAULT_CONFIG, config = DEFAULT_CONFIG,
       sampleCounter = 0, lastSampleTime = 0, sessionId = ''session'' \<rparr>"
  by code_simp

lemma mutate_topLevel_frame:
  assumes "topLevel m" "t \<noteq> branchStats s" 
  shows "theTable (mutate t m s) = theTable s" "recordHeap (mutate t m s) = recordHeap s"
    "branchStats (mutate t m s) = branchStats s"
    "length (tableHeap (mutate t m s)) = length (tableHeap s)"
    "Collector.more (mutate t m s) = Collector.more s"
    "samplingConfig (mutate t m s) = samplingConfig s" "config (mutate t m s) = config s"
    "sampleCounter (mutate t m s) = sampleCounter s" "lastSampleTime (mutate t m s) = lastSampleTime s"
    "sessionId (mutate t m s) = sessionId s"
  using assms by (cases m; simp add: theTable_def)+

text \<open>
  C8, as amended. \<^verbatim>\<open>getBranchStats\<close> returns a newly allocated table object with the
  entries of the collector's table, and the call leaves the collector's table and records as
  they were. Any sequence of top-level mutations of the returned table (assigning or deleting
  keys) leaves the collector's state untouched: its table, its records and every field. The
  record objects themselves are shared between the two tables.
\<close>

theorem getBranchStats_shallow_copy:
  assumes "branchStats s < length (tableHeap s)" and "getBranchStats s = (copy, s1)"
    and "\<forall>m \<in> set ms. topLevel m"
  shows "copy \<noteq> branchStats s1 \<and> tableHeap s1 ! copy = theTable s
     \<and> theTable s1 = theTable s \<and> recordHeap s1 = recordHeap s
     \<and> theTable (mutateAll copy ms s1) = theTable s
     \<and> recordHeap (mutateAll copy ms s1) = recordHeap s
     \<and> lookupBranch (mutateAll copy ms s1) = lookupBranch s
     \<and> (mutateAll copy ms s1)\<lparr>tableHeap := tableHeap s\<rparr> = s"
proof -
  from assms(2) have copy: "copy = length (tableHeap s)"
    and s1: "s1 = s\<lparr>tableHeap := tableHeap s @ [theTable s]\<rparr>"
    by (auto simp: getBranchStats_def)
  have fresh: "copy \<noteq> branchStats s1" using assms(1) by (simp add: copy s1)
  have obj: "tableHeap s1 ! copy = theTable s" by (simp add: copy s1)
  have t1: "theTable s1 = theTable s" using assms(1) by (simp add: s1 theTable_def nth_append)
  have r1: "recordHeap s1 = recordHeap s" by (simp add: s1)
  have frame: "theTable (mutateAll copy ms' u) = theTable u
      \<and> recordHeap (mutateAll copy ms' u) = recordHeap u
      \<and> (mutateAll copy ms' u)\<lparr>tableHeap := x\<rparr> = u\<lparr>tableHeap := x\<rparr>"
    if "\<forall>m \<in> set ms'. topLevel m" "copy \<noteq> branchStats u" for ms' u x
    using that
  proof (induction ms' arbitrary: u)
    case Nil
    then show ?case by (simp add: mutateAll_def)
  next
    case (Cons m ms')
    from Cons.prems have tl: "topLevel m" by simp
    note f = mutate_topLevel_frame [OF tl Cons.prems(2)]
    have "copy \<noteq> branchStats (mutate copy m u)" using Cons.prems(2) by (simp add: f)
    with Cons.IH [of "mutate copy m u"] Cons.prems(1)
    have ih: "theTable (mutateAll copy ms' (mutate copy m u)) = theTable (mutate copy m u)
      \<and> recordHeap (mutateAll copy ms' (mutate copy m u)) = recordHeap (mutate copy m u)
      \<and> (mutateAll copy ms' (mutate copy m u))\<lparr>tableHeap := x\<rparr> = (mutate copy m u)\<lparr>tableHeap := x\<rparr>"
      by simp
    have "(mutate copy m u)\<lparr>tableHeap := x\<rparr> = u\<lparr>tableHeap := x\<rparr>"
      using tl by (cases m) simp_all
    with ih show ?case by (simp add: mutateAll_def f)
  qed
  note fr = frame [OF assms(3) fresh]
  have "lookupBranch (mutateAll copy ms s1) = lookupBranch s"
    using fr [of "tableHeap s"] t1 r1 by (simp add: lookupBranch_def fun_eq_iff)
  moreover have "(mutateAll copy ms s1)\<lparr>tableHeap := tableHeap s\<rparr> = s"
    using fr [of "tableHeap s"] by (simp add: s1)
  ultimately show ?thesis using fresh obj t1 r1 fr [of "tableHeap s"] by simp
qed

theorem getBranchStats_shallow_copy_witness:
  "branchStats demoState < length (tableHeap demoState)
   \<and> getBranchStats demoState = (1, demoState\<lparr>tableHeap := tableHeap demoState @ [theTable demoState]\<rparr>)
   \<and> topLevel (DeleteKey ''Dashboard.tsx:45:8:if#0'') \<and> topLevel (AssignKey ''x'' 0)
   \<and> tableHeap (mutateAll 1 [DeleteKey ''Dashboard.tsx:45:8:if#0'', AssignKey ''x'' 0]
                  (snd (getBranchStats demoState))) ! 1 = [(''x'', 0)]
   \<and> theTable (mutateAll 1 [DeleteKey ''Dashboard.tsx:45:8:if#0'', AssignKey ''x'' 0]
                  (snd (getBranchStats demoState))) = [(''Dashboard.tsx:45:8:if#0'', 0)]"
  using getBranchStats_shallow_copy [of demoState 1
      "demoState\<lparr>tableHeap := tableHeap demoState @ [theTable demoState]\<rparr>"
      "[DeleteKey ''Dashboard.tsx:45:8:if#0'', AssignKey ''x'' 0]"]
  by (simp add: demoState_eq getBranchStats_def theTable_def mutateAll_def)

text \<open>
  C8 as stated fails: the copy is shallow. After \<open>demoCalls\<close> the record of the branch has
  two hits; assigning \<^verbatim>\<open>hitCount = 99\<close> to the record reached through the returned table
  changes the \<open>hitCount\<close> the collector's own table shows to 99.
\<close>

theorem getBranchStats_copy_shares_records:
  "map_option hitCount (lookupBranch (snd (getBranchStats demoState)) ''Dashboard.tsx:45:8:if#0'')
     = Some 2
   \<and> map_option hitCount
       (lookupBranch
          (mutate (fst (getBranchStats demoState)) (AssignHitCount ''Dashboard.tsx:45:8:if#0'' 99)
             (snd (getBranchStats demoState)))
          ''Dashboard.tsx:45:8:if#0'')
     = Some 99"
  by (simp add: demoState_eq getBranchStats_def theTable_def lookupBranch_def)

lemma summary_depends_on_values:
  "branchValues s' = branchValues s \<Longrightarrow> getExecutionSummary s' = getExecutionSummary s"
  by (simp add: getExecutionSummary_def)

text \<open>
  C9. Two calls of \<^verbatim>\<open>exportData\<close> with nothing in between return two distinct table
  objects with the same entries (those of the collector's table, record for record, time
  stamps included) and equal execution summaries.
\<close>

theorem exportData_twice_identical:
  assumes "branchStats s < length (tableHeap s)"
    and "exportData s = (d1, s1)" and "exportData s1 = (d2, s2)"
  shows "exBranchStats d1 \<noteq> exBranchStats d2
     \<and> tableContents s2 (exBranchStats d1) = tableContents s (branchStats s)
     \<and> tableContents s2 (exBranchStats d2) = tableContents s (branchStats s)
     \<and> exExecutionSummary d1 = exExecutionSummary d2
     \<and> exExecutionSummary d1 = getExecutionSummary s"
proof -
  let ?T = "theTable s"
  from assms(2) have s1: "s1 = s\<lparr>tableHeap := tableHeap s @ [?T]\<rparr>"
    and c1: "exBranchStats d1 = length (tableHeap s)"
    and e1: "exExecutionSummary d1 = getExecutionSummary s1"
    by (auto simp: exportData_def getBranchStats_def Let_def)
  have t1: "theTable s1 = ?T" using assms(1) by (simp add: s1 theTable_def nth_append)
  from assms(3) have s2: "s2 = s1\<lparr>tableHeap := tableHeap s1 @ [theTable s1]\<rparr>"
    and c2: "exBranchStats d2 = length (tableHeap s1)"
    and e2: "exExecutionSummary d2 = getExecutionSummary s2"
    by (auto simp: exportData_def getBranchStats_def Let_def)
  have t2: "theTable s2 = ?T" using assms(1) by (simp add: s2 s1 theTable_def nth_append)
  have v1: "branchValues s1 = branchValues s" by (simp add: branchValues_def t1) (simp add: s1)
  have v2: "branchValues s2 = branchValues s" by (simp add: branchValues_def t2) (simp add: s2 s1)
  have th2: "tableHeap s2 = tableHeap s @ [?T, ?T]" by (simp add: s2 t1) (simp add: s1)
  have rh2: "recordHeap s2 = recordHeap s" by (simp add: s2 s1)
  have l1: "length (tableHeap s1) = Suc (length (tableHeap s))" by (simp add: s1)
  have "exBranchStats d1 \<noteq> exBranchStats d2" by (simp add: c1 c2 s1)
  moreover have "tableContents s2 (exBranchStats d1) = tableContents s (branchStats s)"
    by (simp add: tableContents_def c1 th2 rh2 nth_append theTable_def)
  moreover have "tableContents s2 (exBranchStats d2) = tableContents s (branchStats s)"
    by (simp add: tableContents_def c2 l1 th2 rh2 nth_append theTable_def)
  moreover have "exExecutionSummary d1 = getExecutionSummary s"
    by (simp add: e1 summary_depends_on_values [OF v1])
  moreover have "exExecutionSummary d2 = getExecutionSummary s"
    by (simp add: e2 summary_depends_on_values [OF v2])
  ultimately show ?thesis by simp
qed

lemma exportData_demo:
  "exportData demoState =
    (\<lparr> exBranchStats = 1,
       exExecutionSummary =
         \<lparr> summary = \<lparr> totalBranches = 1, hitBranches = 1, deadBranches = 0, hotBranches = 0,
                       coldBranches = 1, coverageRate = 1 \<rparr>,
           fileStats = [(''Dashboard.tsx'',
                         \<lparr> ftotal = 1, fhit = 0, fdead = 0, fhot = 0, fcold = 1 \<rparr>)],
           topDeadCodeFiles = [], topHotPathFiles = [] \<rparr>,
       exConfig = DEFAULT_CONFIG, exSessionId = ''session'' \<rparr>,
     demoState\<lparr>tableHeap := tableHeap demoState @ [theTable demoState]\<rparr>)"
  by code_simp

theorem exportData_twice_identical_witness:
  "branchStats demoState < length (tableHeap demoState)
   \<and> exBranchStats (fst (exportData demoState)) = 1
   \<and> exBranchStats (fst (exportData (snd (exportData demoState)))) = 2
   \<and> tableContents (snd (exportData (snd (exportData demoState)))) 1
       = tableContents (snd (exportData (snd (exportData demoState)))) 2
   \<and> exExecutionSummary (fst (exportData demoState))
       = exExecutionSummary (fst (exportData (snd (exportData demoState))))"
  using exportData_twice_identical [of demoState "fst (exportData demoState)"
      "snd (exportData demoState)" "fst (exportData (snd (exportData demoState)))"
      "snd (exportData (snd (exportData demoState)))"]
  by (simp add: demoState_eq exportData_def getBranchStats_def theTable_def tableContents_def
      Let_def)

section \<open>The rewrite of the plugin\<close>

lemma splitOn_nonempty: "splitOn c s \<noteq> []"
  by (induction s) (auto split: list.splits)

text \<open>The context of the examples is the one \<^verbatim>\<open>Program.enter\<close> makes for the file.\<close>

lemma demoContext_entered: "Program_enter DEFAULT_CONFIG (Some ''/app/src/demo.ts'') = Some demoContext"
  by code_simp

text \<open>
  Each of the five visitors of a tested expression puts \<open>instrumented\<close> of the original
  expression in its place.
\<close>

lemma IfStatement_visitor_builds:
  "\<exists>bid conditionCode context'.
     IfStatement_visitor cwd path (IfStatement test consequent alternate) (Some context)
       = (IfStatement (instrumented bid conditionCode test ''if'' context') consequent alternate,
          Some context')"
  by (cases "startOf path") (simp add: Let_def, blast)

lemma ConditionalExpression_visitor_builds:
  "\<exists>bid conditionCode context'.
     ConditionalExpression_visitor cwd path (ConditionalExpression test consequent alternate)
         (Some context)
       = (ConditionalExpression (instrumented bid conditionCode test ''ternary'' context')
            consequent alternate,
          Some context')"
  by (cases "startOf path") (simp add: Let_def, blast)

lemma LogicalExpression_visitor_builds:
  assumes "operator = ''&&'' \<or> operator = ''||''"
  shows "\<exists>bid conditionCode context'.
     LogicalExpression_visitor cwd path (LogicalExpression operator left right) (Some context)
       = (LogicalExpression operator (instrumented bid conditionCode left ''logical'' context')
            right,
          Some context')"
  using assms by (auto simp: Let_def split: prod.splits)

lemma JSXExpressionContainer_visitor_conditional_builds:
  "\<exists>bid conditionCode context'.
     JSXExpressionContainer_visitor cwd path (LogicalExpression ''&&'' left right) (Some context)
       = (LogicalExpression ''&&''
            (instrumented bid conditionCode left ''jsx-conditional'' context') right,
          Some context')"
  by (cases "startOf path")
    (simp add: JSXExpressionContainer_visitor_def jsxConditional_def jsxTernary_def Let_def, blast)

lemma JSXExpressionContainer_visitor_ternary_builds:
  "\<exists>bid conditionCode context'.
     JSXExpressionContainer_visitor cwd path (ConditionalExpression test consequent alternate)
         (Some context)
       = (ConditionalExpression (instrumented bid conditionCode test ''jsx-ternary'' context')
            consequent alternate,
          Some context')"
  by (cases "startOf path")
    (simp add: JSXExpressionContainer_visitor_def jsxConditional_def jsxTernary_def Let_def, blast)

text \<open>
  What an instrumented test does when it is evaluated: the original test is evaluated as the
  argument of the call, the collector records the value, and then the original test is
  evaluated a second time, in the state the first evaluation and the call have left; the value
  of the whole is the value of the second evaluation.
\<close>

lemma eval_instrumented:
  "eval perf (instrumented bid conditionCode test ty context) rt =
     (case eval perf test rt of
        Inl err \<Rightarrow> Inl err
      | Inr (v1, rt1) \<Rightarrow>
          (case callRecordBranchHit perf
                  (JSStr bid # JSStr ty # JSStr conditionCode # v1 #
                     (if collectExecutionTime (sampling (ctxConfig context))
                      then [JSBool True] else [])) rt1 of
             Inl err \<Rightarrow> Inl err
           | Inr (r, rt2) \<Rightarrow> eval perf test rt2))"
  by (simp add: instrumented_def createInstrumentationCall_def Let_def
      split: sum.splits prod.splits)

text \<open>
  C2. The rewritten code is to evaluate the tested expression exactly once and to leave value
  and side effects as in the original. The visitor puts the test node into the rewritten
  condition twice. For \<^verbatim>\<open>if (done = !done) taken = 1; else taken = 2\<close>, started with
  \<^verbatim>\<open>done = false\<close>, the original ends with \<^verbatim>\<open>done = true\<close> and
  \<^verbatim>\<open>taken = 1\<close>; the instrumented statement toggles \<^verbatim>\<open>done\<close> twice, ends with
  \<^verbatim>\<open>done = false\<close> and \<^verbatim>\<open>taken = 2\<close>, and has recorded a hit for the branch.
\<close>

theorem instrumented_if_evaluates_test_twice:
  "observe (exec of_nat toggleIf demoRuntime) = Some (Some (JSBool True), Some (JSNum 1), [])
   \<and> observe (exec of_nat
         (fst (IfStatement_visitor ''/app'' toggleIfPath toggleIf (Some demoContext))) demoRuntime)
       = Some (Some (JSBool False), Some (JSNum 2), [(''src/demo.ts:3:2:if#0'', 1, 0)])"
  by code_simp

text \<open>
  C3. The call inserted at the head of a case is to record a hit whenever the body of the case
  runs, whatever the label. The call passes the label as the condition result, so the label's
  truthiness decides: for \<^verbatim>\<open>switch (n) { case 0: ...; case 1: ... }\<close> with
  \<^verbatim>\<open>n = 0\<close> the body of the first case runs (\<^verbatim>\<open>taken = 10\<close>) and its record gets
  a miss and no hit; with \<^verbatim>\<open>n = 1\<close> the second case gets a hit. In both runs the case
  that does not run gets no record.
\<close>

theorem falsy_case_label_recorded_as_miss:
  "observe (exec of_nat zeroSwitch demoRuntime) = Some (Some (JSBool False), Some (JSNum 10), [])
   \<and> observe (exec of_nat
         (fst (SwitchStatement_visitor ''/app'' zeroSwitchPath zeroSwitch (Some demoContext)))
         demoRuntime)
       = Some (Some (JSBool False), Some (JSNum 10), [(''src/demo.ts:7:4:switch-case#0'', 0, 1)])
   \<and> observe (exec of_nat
         (fst (SwitchStatement_visitor ''/app'' zeroSwitchPath zeroSwitch (Some demoContext)))
         oneRuntime)
       = Some (Some (JSBool False), Some (JSNum 11), [(''src/demo.ts:7:4:switch-case#1'', 1, 0)])"
  by code_simp

end
